theory Spec2Isabelle
  imports Complex_Main
begin

section \<open>JavaScript values used by the engine\<close>

text \<open>
  The embedding follows \<^verbatim>\<open>src/stress-test.js\<close>. A string is the list of its UTF-16 code
  units, for strings whose code units all lie below 256 (the type \<open>char\<close>); on ASCII text a
  code unit is a character. A JavaScript value that reaches a protocol list is \<^verbatim>\<open>undefined\<close>, a string, or
  a member that an object literal inherits from \<^verbatim>\<open>Object.prototype\<close> (a function, or
  the prototype object itself for \<^verbatim>\<open>__proto__\<close>); equality of the datatype is \<^verbatim>\<open>===\<close>.
\<close>

datatype jsval = Undefined | Str string | Inherited string

text \<open>\<^verbatim>\<open>Boolean(v)\<close>: \<^verbatim>\<open>undefined\<close> and the empty string are falsy, functions and
  objects are truthy.\<close>

text \<open>The names of the members of \<^verbatim>\<open>Object.prototype\<close>, which every object literal
  inherits, and what \<^verbatim>\<open>String(v)\<close> gives for the member \<open>v\<close> of a name: the source text of
  a native function (the constructor is the function \<^verbatim>\<open>Object\<close>), and \<^verbatim>\<open>[object Object]\<close>
  for the prototype object that \<^verbatim>\<open>__proto__\<close> reads.\<close>

definition object_prototype_keys :: "string list" where
  "object_prototype_keys =
     [''constructor'', ''__defineGetter__'', ''__defineSetter__'', ''hasOwnProperty'',
      ''__lookupGetter__'', ''__lookupSetter__'', ''isPrototypeOf'', ''propertyIsEnumerable'',
      ''toString'', ''valueOf'', ''__proto__'', ''toLocaleString'']"

definition inherited_to_string :: "string \<Rightarrow> string" where
  "inherited_to_string k =
     (if k = ''__proto__'' then ''[object Object]''
      else ''function '' @ (if k = ''constructor'' then ''Object'' else k) @ ''() { [native code] }'')"

text \<open>A value used as a property key: \<^verbatim>\<open>obj[v]\<close> reads the property named \<^verbatim>\<open>String(v)\<close>.\<close>

fun to_property_key :: "jsval \<Rightarrow> string" where
  "to_property_key Undefined = ''undefined''"
| "to_property_key (Str s) = s"
| "to_property_key (Inherited k) = inherited_to_string k"

fun truthy :: "jsval \<Rightarrow> bool" where
  "truthy Undefined = False"
| "truthy (Str s) = (s \<noteq> [])"
| "truthy (Inherited k) = True"

text \<open>The \<^verbatim>\<open>code\<close> property of a thrown value: absent, a string (Node and undici
  codes such as \<^verbatim>\<open>ECONNRESET\<close>), or a number (the legacy code of a DOMException, 23 for
  the TimeoutError of \<^verbatim>\<open>AbortSignal.timeout\<close>).\<close>

datatype js_code = NoCode | StrCode string | NumCode int

datatype js_error = Error (code: js_code) (message: "string option")

fun code_truthy :: "js_code \<Rightarrow> bool" where
  "code_truthy NoCode = False"
| "code_truthy (StrCode s) = (s \<noteq> [])"
| "code_truthy (NumCode n) = (n \<noteq> 0)"

text \<open>Decimal rendering of a number used as a property key.\<close>

definition digit_char :: "nat \<Rightarrow> char" where
  "digit_char d = ''0123456789'' ! d"

function digits :: "nat \<Rightarrow> string" where
  "digits n = (if n < 10 then [digit_char n] else digits (n div 10) @ [digit_char (n mod 10)])"
  by pat_completeness auto
termination
  by (relation "measure id") auto

definition int_to_string :: "int \<Rightarrow> string" where
  "int_to_string i = (if i < 0 then CHR ''-'' # digits (nat (- i)) else digits (nat i))"

fun code_to_key :: "js_code \<Rightarrow> string" where
  "code_to_key NoCode = ''undefined''"
| "code_to_key (StrCode s) = s"
| "code_to_key (NumCode n) = int_to_string n"

text \<open>The tables \<^verbatim>\<open>statusCodes\<close> and \<^verbatim>\<open>attackStatus\<close> are keyed by status numbers, whose
  keys are digit strings and never name an inherited member: they are maps from numbers to
  counts. \<^verbatim>\<open>m[k] || 0\<close> reads a count, and \<^verbatim>\<open>m[k] = (m[k] || 0) + 1\<close> raises it by one.\<close>

definition count_of :: "('k \<Rightarrow> nat option) \<Rightarrow> 'k \<Rightarrow> nat" where
  "count_of m k = (case m k of Some c \<Rightarrow> c | None \<Rightarrow> 0)"

definition increment_key :: "('k \<Rightarrow> nat option) \<Rightarrow> 'k \<Rightarrow> 'k \<Rightarrow> nat option" where
  "increment_key m k = m(k := Some (count_of m k + 1))"

text \<open>
  The tables \<^verbatim>\<open>errors\<close> and \<^verbatim>\<open>protocols\<close> are keyed by arbitrary strings. Each is an
  object literal \<^verbatim>\<open>{}\<close>: the map holds its own properties, a read that finds no own
  property falls through to \<^verbatim>\<open>Object.prototype\<close>, and a stored value is a number or, once
  \<^verbatim>\<open>+ 1\<close> was applied to something that is not a number, a string.
\<close>

datatype table_value = Count nat | Text string

type_synonym js_table = "string \<Rightarrow> table_value option"

datatype table_read = Missing | Own table_value | FromPrototype string

text \<open>\<^verbatim>\<open>t[k]\<close>.\<close>

definition table_get :: "js_table \<Rightarrow> string \<Rightarrow> table_read" where
  "table_get t k =
     (case t k of
        Some v \<Rightarrow> Own v
      | None \<Rightarrow> if k \<in> set object_prototype_keys then FromPrototype k else Missing)"

text \<open>\<^verbatim>\<open>(v || 0) + 1\<close>: \<^verbatim>\<open>undefined\<close>, 0 and the empty string are falsy and give 1; a
  number is raised by one; to a non-empty string, a function or an object, \<^verbatim>\<open>+ 1\<close> appends
  the character 1 to its string form.\<close>

fun or_zero_plus_one :: "table_read \<Rightarrow> table_value" where
  "or_zero_plus_one Missing = Count 1"
| "or_zero_plus_one (Own (Count n)) = Count (n + 1)"
| "or_zero_plus_one (Own (Text s)) = (if s = [] then Count 1 else Text (s @ ''1''))"
| "or_zero_plus_one (FromPrototype k) = Text (inherited_to_string k @ ''1'')"

text \<open>\<^verbatim>\<open>t[k] = v\<close> for a number or string \<open>v\<close>: an own property is created or overwritten,
  except that \<^verbatim>\<open>__proto__\<close> is an accessor whose setter ignores such values.\<close>

definition table_set :: "js_table \<Rightarrow> string \<Rightarrow> table_value \<Rightarrow> js_table" where
  "table_set t k v = (if k = ''__proto__'' then t else t(k := Some v))"

text \<open>\<^verbatim>\<open>t[k] = (t[k] || 0) + 1\<close>.\<close>

definition table_increment :: "js_table \<Rightarrow> string \<Rightarrow> js_table" where
  "table_increment t k = table_set t k (or_zero_plus_one (table_get t k))"

text \<open>The count a table shows for a key, and whether its own entry at a key is a count (or
  absent) rather than a string.\<close>

definition count_at :: "js_table \<Rightarrow> string \<Rightarrow> nat" where
  "count_at t k = (case t k of Some (Count n) \<Rightarrow> n | Some (Text s) \<Rightarrow> 0 | None \<Rightarrow> 0)"

definition count_valued :: "js_table \<Rightarrow> string \<Rightarrow> bool" where
  "count_valued t k = (case t k of Some (Text s) \<Rightarrow> False | Some (Count n) \<Rightarrow> True | None \<Rightarrow> True)"

section \<open>Run statistics and the world\<close>

text \<open>\<^verbatim>\<open>minLatency\<close> starts at \<^verbatim>\<open>Infinity\<close>; every other latency is a finite number of
  milliseconds. Numbers are ideal reals and naturals: rounding of doubles is not modelled.\<close>

datatype min_latency = PosInfinity | Finite real

fun below_min :: "real \<Rightarrow> min_latency \<Rightarrow> bool" where
  "below_min x PosInfinity = True"
| "below_min x (Finite m) = (x < m)"

fun min_le :: "min_latency \<Rightarrow> min_latency \<Rightarrow> bool" where
  "min_le a PosInfinity = True"
| "min_le PosInfinity (Finite m) = False"
| "min_le (Finite a) (Finite m) = (a \<le> m)"

record run_stats =
  success :: nat
  failed :: nat
  totalLatency :: real
  minLatency :: min_latency
  maxLatency :: real
  statusCodes :: "int \<rightharpoonup> nat"
  protocols :: js_table
  errors :: js_table
  attackSent :: nat
  attackReceived :: nat
  attackErrors :: nat
  attackStatus :: "int \<rightharpoonup> nat"

definition initial_stats :: run_stats where
  "initial_stats = \<lparr> success = 0, failed = 0, totalLatency = 0, minLatency = PosInfinity,
     maxLatency = 0, statusCodes = Map.empty, protocols = Map.empty, errors = Map.empty,
     attackSent = 0, attackReceived = 0, attackErrors = 0, attackStatus = Map.empty \<rparr>"

text \<open>
  The world is what the asynchronous code reads and mutates outside its own object:
  \<^verbatim>\<open>Date.now()\<close> in milliseconds, the shared \<^verbatim>\<open>stats\<close> object, and three ghost fields that
  record the transport handles: how many clients or sessions were constructed, which of them
  were never closed or destroyed, and which protocols were attempted, in order.
\<close>

record world =
  clock :: int
  stats :: run_stats
  created :: nat
  open_clients :: "nat list"
  attempted :: "jsval list"

section \<open>CircuitBreaker (lines 54--111)\<close>

datatype circuit_state = CLOSED | OPEN | HALF_OPEN

record breaker =
  failCount :: int
  successCount :: int
  threshold :: int
  timeout :: int
  halfOpenRequests :: int
  state :: circuit_state
  nextAttempt :: int

text \<open>The constructor, lines 55--63.\<close>

definition CircuitBreaker :: "int \<Rightarrow> int \<Rightarrow> int \<Rightarrow> breaker" where
  "CircuitBreaker thr tmo hor =
     \<lparr> failCount = 0, successCount = 0, threshold = thr, timeout = tmo,
       halfOpenRequests = hor, state = CLOSED, nextAttempt = 0 \<rparr>"

definition circuit_open_error :: js_error where
  "circuit_open_error = Error NoCode (Some ''Circuit OPEN - Waiting for reconnect'')"

text \<open>\<^verbatim>\<open>reset()\<close>, lines 102--106.\<close>

definition reset :: "breaker \<Rightarrow> breaker" where
  "reset b = b\<lparr> failCount := 0, successCount := 0, state := CLOSED \<rparr>"

text \<open>
  \<^verbatim>\<open>execute(fn)\<close> has three synchronous sections, separated by the one \<^verbatim>\<open>await fn()\<close>.
  The gate (lines 66--72) rejects or admits the call; it is given \<^verbatim>\<open>Date.now()\<close>.
\<close>

definition execute_gate :: "breaker \<Rightarrow> int \<Rightarrow> js_error + breaker" where
  "execute_gate b now =
     (if state b = OPEN then
        (if now < nextAttempt b then Inl circuit_open_error
         else Inr (b\<lparr> state := HALF_OPEN, successCount := 0 \<rparr>))
      else Inr b)"

text \<open>After \<^verbatim>\<open>fn\<close> resolved, lines 77--84.\<close>

definition execute_resolved :: "breaker \<Rightarrow> breaker" where
  "execute_resolved b =
     (if state b = HALF_OPEN then
        (let b1 = b\<lparr> successCount := successCount b + 1 \<rparr>
         in if halfOpenRequests b1 \<le> successCount b1 then reset b1 else b1)
      else b\<lparr> failCount := max 0 (failCount b - 1) \<rparr>)"

text \<open>After \<^verbatim>\<open>fn\<close> rejected, lines 88--96; \<^verbatim>\<open>now\<close> is \<^verbatim>\<open>Date.now()\<close> read in the handler.\<close>

definition execute_rejected :: "breaker \<Rightarrow> int \<Rightarrow> breaker" where
  "execute_rejected b now =
     (let b1 = b\<lparr> failCount := failCount b + 1 \<rparr>
      in if state b1 = HALF_OPEN then b1\<lparr> state := OPEN, nextAttempt := now + timeout b1 \<rparr>
         else if threshold b1 \<le> failCount b1 then
           b1\<lparr> state := OPEN, nextAttempt := now + timeout b1 \<rparr>
         else b1)"

text \<open>
  One call of \<^verbatim>\<open>execute\<close> run to completion with no other task interleaved at the
  \<^verbatim>\<open>await\<close>. The wrapped operation is a function of the world that returns its outcome
  (\<open>Inl\<close> a thrown error, \<open>Inr\<close> the value) and the world it leaves; the result of the call
  is the outcome, the breaker and the world afterwards.
\<close>

definition execute ::
  "breaker \<Rightarrow> (world \<Rightarrow> (js_error + 'a) \<times> world) \<Rightarrow> world \<Rightarrow> (js_error + 'a) \<times> breaker \<times> world" where
  "execute b fn w =
     (case execute_gate b (clock w) of
        Inl err \<Rightarrow> (Inl err, b, w)
      | Inr b1 \<Rightarrow>
          (case fn w of
             (Inr result, w') \<Rightarrow> (Inr result, execute_resolved b1, w')
           | (Inl err, w') \<Rightarrow> (Inl err, execute_rejected b1 (clock w'), w')))"

text \<open>A sequence of calls on one breaker; each call comes with the world it is made in, so
  time may pass and anything else may happen between two calls.\<close>

fun execute_all ::
  "breaker \<Rightarrow> ((world \<Rightarrow> (js_error + 'a) \<times> world) \<times> world) list \<Rightarrow> breaker" where
  "execute_all b [] = b"
| "execute_all b ((fn, w) # calls) = execute_all (fst (snd (execute b fn w))) calls"

text \<open>Whether the wrapped operation of a call throws, resp. returns, in the world of the call.\<close>

definition op_fails :: "(world \<Rightarrow> (js_error + 'a) \<times> world) \<times> world \<Rightarrow> bool" where
  "op_fails c = isl (fst ((fst c) (snd c)))"

definition op_succeeds :: "(world \<Rightarrow> (js_error + 'a) \<times> world) \<times> world \<Rightarrow> bool" where
  "op_succeeds c = (\<not> isl (fst ((fst c) (snd c))))"

section \<open>RequestExecutor and FailoverDispatcher: \<^verbatim>\<open>sendRequest\<close> (lines 163--222)\<close>

text \<open>
  The target is the environment. What it does to the \<open>k\<close>-th client constructed in a run is a
  reply: \<^verbatim>\<open>client.request\<close> rejects (refused, reset, TLS failure, protocol error, the
  8 s abort signal), or it resolves with a status code and then either the iteration over the
  body throws or the body is drained. The reply also says how far \<^verbatim>\<open>Date.now()\<close> moved and
  how many nanoseconds \<^verbatim>\<open>process.hrtime.bigint()\<close> measured between start and end. The
  random method, user agent and TLS profile only shape the request; they are part of what the
  environment answers to.
\<close>

datatype net_outcome = Rejected js_error | BodyFailed int js_error | Completed int

record reply =
  outcome :: net_outcome
  wall_ms :: int
  elapsed_ns :: nat

type_synonym network = "string \<Rightarrow> string \<Rightarrow> jsval \<Rightarrow> nat \<Rightarrow> reply"

record request_result =
  statusCode :: int
  latency :: real
  proto :: jsval

text \<open>Lines 203--209.\<close>

definition record_success :: "run_stats \<Rightarrow> int \<Rightarrow> real \<Rightarrow> jsval \<Rightarrow> run_stats" where
  "record_success s sc lat p =
     (let s1 = s\<lparr> success := success s + 1 \<rparr>;
          s2 = s1\<lparr> totalLatency := totalLatency s1 + lat \<rparr>;
          s3 = s2\<lparr> statusCodes := increment_key (statusCodes s2) sc \<rparr>;
          s4 = s3\<lparr> protocols := table_increment (protocols s3) (to_property_key p) \<rparr>;
          s5 = (if below_min lat (minLatency s4) then s4\<lparr> minLatency := Finite lat \<rparr> else s4)
      in if maxLatency s5 < lat then s5\<lparr> maxLatency := lat \<rparr> else s5)"

text \<open>\<^verbatim>\<open>err.code || err.message?.substring(0, 20) || "UNKNOWN"\<close>, line 216.\<close>

definition error_key :: "js_error \<Rightarrow> string" where
  "error_key err =
     (if code_truthy (code err) then code_to_key (code err)
      else (case message err of
              None \<Rightarrow> ''UNKNOWN''
            | Some m \<Rightarrow> if take 20 m \<noteq> [] then take 20 m else ''UNKNOWN''))"

text \<open>Lines 215--217.\<close>

definition record_failure :: "run_stats \<Rightarrow> js_error \<Rightarrow> run_stats" where
  "record_failure s err =
     s\<lparr> failed := failed s + 1, errors := table_increment (errors s) (error_key err) \<rparr>"

text \<open>
  The closure passed to \<^verbatim>\<open>breaker.execute\<close>, lines 166--212. All three branches on the
  protocol construct one undici client (they differ in \<^verbatim>\<open>pipelining\<close> only), which the ghost
  fields record; \<^verbatim>\<open>client.close()\<close> is the statement of line 198, reached after the body
  was drained.
\<close>

definition attempt ::
  "network \<Rightarrow> string \<Rightarrow> string \<Rightarrow> jsval \<Rightarrow> world \<Rightarrow> (js_error + request_result) \<times> world" where
  "attempt net url path p w =
     (let client = created w;
          w1 = w\<lparr> created := Suc client, open_clients := client # open_clients w,
                 attempted := attempted w @ [p] \<rparr>;
          r = net url path p client;
          w2 = w1\<lparr> clock := clock w1 + wall_ms r \<rparr>
      in case outcome r of
           Rejected err \<Rightarrow> (Inl err, w2)
         | BodyFailed sc err \<Rightarrow> (Inl err, w2)
         | Completed sc \<Rightarrow>
             (let w3 = w2\<lparr> open_clients := remove1 client (open_clients w2) \<rparr>;
                  lat = real (elapsed_ns r) / 1000000
              in (Inr \<lparr> statusCode = sc, latency = lat, proto = p \<rparr>,
                  w3\<lparr> stats := record_success (stats w3) sc lat p \<rparr>)))"

text \<open>\<^verbatim>\<open>protocols[protocols.length - 1]\<close>; \<^verbatim>\<open>undefined\<close> on the empty array.\<close>

definition last_protocol :: "jsval list \<Rightarrow> jsval" where
  "last_protocol protos = (if protos = [] then Undefined else last protos)"

text \<open>
  The \<^verbatim>\<open>for ... of\<close> loop of \<^verbatim>\<open>sendRequest\<close> over the protocols still to try. The result
  is \<open>Inr (Some r)\<close> when an attempt returned \<open>r\<close>, \<open>Inl err\<close> when the handler rethrew, and
  \<open>Inr None\<close> when the loop ran off its end and the function returned \<^verbatim>\<open>undefined\<close>.
\<close>

fun sendRequest_loop ::
  "network \<Rightarrow> string \<Rightarrow> string \<Rightarrow> jsval list \<Rightarrow> jsval list \<Rightarrow> breaker \<Rightarrow> world \<Rightarrow>
   (js_error + request_result option) \<times> breaker \<times> world" where
  "sendRequest_loop net url path protos [] b w = (Inr None, b, w)"
| "sendRequest_loop net url path protos (p # rest) b w =
     (case execute b (attempt net url path p) w of
        (Inr res, b', w') \<Rightarrow> (Inr (Some res), b', w')
      | (Inl err, b', w') \<Rightarrow>
          if p = last_protocol protos
          then (Inl err, b', w'\<lparr> stats := record_failure (stats w') err \<rparr>)
          else sendRequest_loop net url path protos rest b' w')"

definition sendRequest ::
  "network \<Rightarrow> string \<Rightarrow> string \<Rightarrow> breaker \<Rightarrow> jsval list \<Rightarrow> world \<Rightarrow>
   (js_error + request_result option) \<times> breaker \<times> world" where
  "sendRequest net url path b protos w = sendRequest_loop net url path protos protos b w"

section \<open>ProtocolProbe: \<^verbatim>\<open>detectProtocols\<close> (lines 133--161)\<close>

text \<open>A header of an undici response is one string, or an array of strings when the header
  line was repeated. \<^verbatim>\<open>includes\<close> is the substring test on a string and the membership
  test on an array.\<close>

datatype header_value = Single string | Multi "string list"

fun starts_with :: "string \<Rightarrow> string \<Rightarrow> bool" where
  "starts_with s [] = True"
| "starts_with [] (c # t) = False"
| "starts_with (a # s) (c # t) = (a = c \<and> starts_with s t)"

fun str_includes :: "string \<Rightarrow> string \<Rightarrow> bool" where
  "str_includes [] t = (t = [])"
| "str_includes (a # s) t = (starts_with (a # s) t \<or> str_includes s t)"

fun js_includes :: "header_value \<Rightarrow> string \<Rightarrow> bool" where
  "js_includes (Single s) t = str_includes s t"
| "js_includes (Multi xs) t = (t \<in> set xs)"

text \<open>\<^verbatim>\<open>headers['alt-svc']?.includes('h3')\<close>, line 151.\<close>

definition advertises_h3 :: "(string \<Rightarrow> header_value option) \<Rightarrow> bool" where
  "advertises_h3 hs = (case hs ''alt-svc'' of None \<Rightarrow> False | Some v \<Rightarrow> js_includes v ''h3'')"

text \<open>\<^verbatim>\<open>Set.prototype.add\<close> on a set kept in insertion order.\<close>

definition set_add :: "jsval list \<Rightarrow> jsval \<Rightarrow> jsval list" where
  "set_add xs v = (if v \<in> set xs then xs else xs @ [v])"

text \<open>What can happen inside the \<^verbatim>\<open>try\<close> block: the client constructor throws, the HEAD
  request rejects (also by its 3 s abort signal), or it resolves with headers and then
  \<^verbatim>\<open>client.close()\<close> resolves (\<open>None\<close>) or rejects.\<close>

datatype probe = ClientThrows js_error | RequestRejected js_error
  | Responded "string \<Rightarrow> header_value option" "js_error option"

text \<open>The \<^verbatim>\<open>try\<close> block, lines 137--155: its completion and the set it leaves.\<close>

definition detect_try :: "probe \<Rightarrow> jsval list \<Rightarrow> (js_error + unit) \<times> jsval list" where
  "detect_try pr ps =
     (case pr of
        ClientThrows err \<Rightarrow> (Inl err, ps)
      | RequestRejected err \<Rightarrow> (Inl err, ps)
      | Responded hs closing \<Rightarrow>
          (let ps1 = (if advertises_h3 hs then set_add ps (Str ''h3'') else ps);
               ps2 = set_add ps1 (Str ''h2'');
               ps3 = set_add ps2 (Str ''h1.1'')
           in case closing of Some err \<Rightarrow> (Inl err, ps3) | None \<Rightarrow> (Inr (), ps3)))"

text \<open>The whole function: \<open>Inl\<close> would be an error thrown to the caller.\<close>

definition detectProtocols :: "probe \<Rightarrow> js_error + jsval list" where
  "detectProtocols pr =
     (case detect_try pr [] of
        (Inl err, ps) \<Rightarrow> Inr (set_add ps (Str ''h1.1''))
      | (Inr u, ps) \<Rightarrow> Inr ps)"

section \<open>Protocol override (lines 466--477)\<close>

text \<open>
  \<^verbatim>\<open>String.prototype.trim\<close> strips white space and line terminators from both ends. The
  code units that count are those of ECMAScript: tab, line feed, vertical tab, form feed,
  carriage return, space, U+00A0, U+1680, U+2000 to U+200A, U+2028, U+2029, U+202F, U+205F,
  U+3000 and U+FEFF.
\<close>

definition js_white_space :: "nat \<Rightarrow> bool" where
  "js_white_space u =
     (u \<in> set [0x09, 0x0A, 0x0B, 0x0C, 0x0D, 0x20, 0xA0, 0x1680, 0x2000, 0x2001, 0x2002, 0x2003,
                0x2004, 0x2005, 0x2006, 0x2007, 0x2008, 0x2009, 0x200A, 0x2028, 0x2029, 0x202F,
                0x205F, 0x3000, 0xFEFF])"

definition is_space :: "char \<Rightarrow> bool" where
  "is_space c = js_white_space (of_char c)"

definition trim :: "string \<Rightarrow> string" where
  "trim s = rev (dropWhile is_space (rev (dropWhile is_space s)))"

text \<open>\<^verbatim>\<open>s.split(',')\<close>.\<close>

fun split_comma :: "string \<Rightarrow> string list" where
  "split_comma [] = [Nil]"
| "split_comma (c # cs) =
     (if c = CHR '','' then [] # split_comma cs
      else (case split_comma cs of [] \<Rightarrow> [c # Nil] | t # ts \<Rightarrow> (c # t) # ts))"

text \<open>
  \<^verbatim>\<open>protocolMap\<close> is the object literal \<^verbatim>\<open>{ '1.1': 'h1.1', '2': 'h2', '3': 'h3' }\<close>. Reading
  \<^verbatim>\<open>protocolMap[k]\<close> looks at the three own properties and then at the prototype of every
  object literal, \<^verbatim>\<open>Object.prototype\<close>.
\<close>

definition protocolMap :: "string \<Rightarrow> jsval" where
  "protocolMap k =
     (if k = ''1.1'' then Str ''h1.1''
      else if k = ''2'' then Str ''h2''
      else if k = ''3'' then Str ''h3''
      else if k \<in> set object_prototype_keys then Inherited k
      else Undefined)"

text \<open>Line 468: \<^verbatim>\<open>config.protocol.split(',').map(p => protocolMap[p.trim()]).filter(Boolean)\<close>.\<close>

definition forced_protocols :: "string \<Rightarrow> jsval list" where
  "forced_protocols s = filter truthy (map (\<lambda>p. protocolMap (trim p)) (split_comma s))"

text \<open>Lines 464--477 of \<^verbatim>\<open>main\<close>: the override when \<^verbatim>\<open>config.protocol\<close> is truthy, the
  probe otherwise, and the default for an empty list.\<close>

definition main_protocols :: "string option \<Rightarrow> probe \<Rightarrow> js_error + jsval list" where
  "main_protocols override pr =
     (case (case override of
              None \<Rightarrow> detectProtocols pr
            | Some s \<Rightarrow> if s \<noteq> [] then Inr (forced_protocols s) else detectProtocols pr) of
        Inl err \<Rightarrow> Inl err
      | Inr protos \<Rightarrow> if length protos = 0 then Inr [Str ''h1.1''] else Inr protos)"

section \<open>AttackDriver: \<^verbatim>\<open>rapidResetAttack\<close> (lines 225--277) and the mode switch of \<^verbatim>\<open>main\<close>\<close>

text \<open>
  One pass of the \<^verbatim>\<open>while\<close> loop, as the environment shapes it: the HTTP/2 session
  connects or fails to (an error event or the 5 s timer), and the events that the streams'
  handlers receive before the session is destroyed; \<open>round_ms\<close> is how far
  \<^verbatim>\<open>Date.now()\<close> moved during the pass.
\<close>

datatype stream_event = ResponseEvent int | ErrorEvent

datatype connect_result = Connected "stream_event list" | ConnectFailed js_error

record round =
  connect :: connect_result
  round_ms :: int

text \<open>The two handlers, lines 252--258.\<close>

fun on_stream_event :: "run_stats \<Rightarrow> stream_event \<Rightarrow> run_stats" where
  "on_stream_event s (ResponseEvent st) =
     s\<lparr> attackReceived := attackReceived s + 1, attackStatus := increment_key (attackStatus s) st \<rparr>"
| "on_stream_event s ErrorEvent = s\<lparr> attackErrors := attackErrors s + 1 \<rparr>"

text \<open>The loop body, lines 229--275. The \<^verbatim>\<open>for\<close> loop opens 50 streams and counts each
  as sent; the \<^verbatim>\<open>finally\<close> block destroys the session on every path.\<close>

definition attack_round :: "round \<Rightarrow> world \<Rightarrow> world" where
  "attack_round r w =
     (let session = created w;
          w1 = w\<lparr> created := Suc session, open_clients := session # open_clients w \<rparr>;
          w2 = (case connect r of
                  ConnectFailed err \<Rightarrow>
                    w1\<lparr> stats := (stats w1)\<lparr> attackErrors := attackErrors (stats w1) + 1 \<rparr> \<rparr>
                | Connected events \<Rightarrow>
                    w1\<lparr> stats := foldl on_stream_event
                          ((stats w1)\<lparr> attackSent := attackSent (stats w1) + 50 \<rparr>) events \<rparr>);
          w3 = w2\<lparr> clock := clock w2 + round_ms r \<rparr>
      in w3\<lparr> open_clients := remove1 session (open_clients w3) \<rparr>)"

text \<open>The \<^verbatim>\<open>while\<close> loop. The rounds are the passes the environment allows; \<open>None\<close> says
  that the loop had not ended when they were used up.\<close>

fun rapidResetAttack_loop :: "int \<Rightarrow> int \<Rightarrow> round list \<Rightarrow> world \<Rightarrow> world option" where
  "rapidResetAttack_loop startTime duration [] w =
     (if clock w - startTime < duration then None else Some w)"
| "rapidResetAttack_loop startTime duration (r # rounds) w =
     (if clock w - startTime < duration
      then rapidResetAttack_loop startTime duration rounds (attack_round r w)
      else Some w)"

definition rapidResetAttack :: "string \<Rightarrow> int \<Rightarrow> round list \<Rightarrow> world \<Rightarrow> world option" where
  "rapidResetAttack url duration rounds w = rapidResetAttack_loop (clock w) duration rounds w"

text \<open>The fields of \<^verbatim>\<open>config\<close> built by \<^verbatim>\<open>parseArgs\<close>, lines 363--370.\<close>

record config =
  cfg_url :: "string option"
  cfg_time :: int
  cfg_conc :: int
  cfg_attack :: string
  cfg_protocol :: "string option"
  cfg_adaptiveDelay :: bool

text \<open>
  Lines 518--566: what \<^verbatim>\<open>main\<close> starts. For the standard load test this records the number
  of workers only; in attack mode it is the list of tasks pushed to \<^verbatim>\<open>attackTasks\<close>, each a
  call of \<^verbatim>\<open>rapidResetAttack(targetUrl, stats, durationMs)\<close> still waiting for its environment.
\<close>

datatype workload = StandardLoad nat | AttackMode "(round list \<Rightarrow> world \<Rightarrow> world option) list"

definition main_workload :: "config \<Rightarrow> string \<Rightarrow> int \<Rightarrow> workload" where
  "main_workload cfg targetUrl durationMs =
     (if cfg_attack cfg = ''none'' then StandardLoad (nat (cfg_conc cfg))
      else AttackMode (replicate (nat (cfg_conc cfg)) (rapidResetAttack targetUrl durationMs)))"

section \<open>Runs and the order on statistics\<close>

text \<open>The order in which one statistics record may follow another during a run: neither
  counter lower, the minimum latency not higher, the maximum latency not lower.\<close>

definition stats_monotone :: "run_stats \<Rightarrow> run_stats \<Rightarrow> bool" where
  "stats_monotone s s' =
     (success s \<le> success s' \<and> failed s \<le> failed s' \<and>
      min_le (minLatency s') (minLatency s) \<and> maxLatency s \<le> maxLatency s')"

text \<open>The operations that write to \<^verbatim>\<open>stats\<close> during a run, and a run as a sequence of
  them on the shared breaker and world.\<close>

datatype run_op = Dispatch network string string "jsval list" | AttackRound round

fun run_step :: "breaker \<times> world \<Rightarrow> run_op \<Rightarrow> breaker \<times> world" where
  "run_step (b, w) (Dispatch net url path protos) = snd (sendRequest net url path b protos w)"
| "run_step (b, w) (AttackRound r) = (b, attack_round r w)"

definition run :: "run_op list \<Rightarrow> breaker \<times> world \<Rightarrow> breaker \<times> world" where
  "run ops bw = foldl run_step bw ops"

section \<open>Definitions in the words of the specification\<close>

text \<open>
  The dispatcher in the words of the specification (section 4.4), to compare
  \<^verbatim>\<open>sendRequest\<close> with: for each protocol in list order the attempt runs through the breaker;
  a success is returned at once; a failure is recorded and propagated if this was the last
  protocol in the list, by position, and otherwise the next protocol is tried.
\<close>

fun spec_dispatch ::
  "network \<Rightarrow> string \<Rightarrow> string \<Rightarrow> jsval list \<Rightarrow> breaker \<Rightarrow> world \<Rightarrow>
   (js_error + request_result option) \<times> breaker \<times> world" where
  "spec_dispatch net url path [] b w = (Inr None, b, w)"
| "spec_dispatch net url path (p # rest) b w =
     (case execute b (attempt net url path p) w of
        (Inr res, b', w') \<Rightarrow> (Inr (Some res), b', w')
      | (Inl err, b', w') \<Rightarrow>
          if rest = []
          then (Inl err, b', w'\<lparr> stats := record_failure (stats w') err \<rparr>)
          else spec_dispatch net url path rest b' w')"

text \<open>
  The advertisement signal, independently of the code: the value of an \<^verbatim>\<open>Alt-Svc\<close> field
  is a comma-separated list of alternatives, each a protocol identifier, an equals sign, an
  authority and parameters (RFC 7838); header lines repeated in one response form one list.
  The response advertises HTTP/3 when the protocol identifier of some alternative is \<open>h3\<close>.
\<close>

fun header_lines :: "header_value \<Rightarrow> string list" where
  "header_lines (Single s) = [s]"
| "header_lines (Multi xs) = xs"

definition alt_protocol_id :: "string \<Rightarrow> string" where
  "alt_protocol_id alt = trim (takeWhile (\<lambda>c. c \<noteq> CHR ''='') alt)"

definition spec_advertises_h3 :: "(string \<Rightarrow> header_value option) \<Rightarrow> bool" where
  "spec_advertises_h3 hs =
     (case hs ''alt-svc'' of
        None \<Rightarrow> False
      | Some v \<Rightarrow> ''h3'' \<in> set (map alt_protocol_id (concat (map split_comma (header_lines v)))))"

section \<open>Sample worlds, operations and environments\<close>

text \<open>A world with a given clock and fresh statistics, an operation that throws after
  \<open>d\<close> milliseconds, and one that returns after \<open>d\<close> milliseconds.\<close>

definition world_at :: "int \<Rightarrow> world" where
  "world_at t = \<lparr> clock = t, stats = initial_stats, created = 0, open_clients = [], attempted = [] \<rparr>"

definition failing_op :: "js_error \<Rightarrow> int \<Rightarrow> world \<Rightarrow> (js_error + nat) \<times> world" where
  "failing_op e d w = (Inl e, w\<lparr> clock := clock w + d \<rparr>)"

definition succeeding_op :: "nat \<Rightarrow> int \<Rightarrow> world \<Rightarrow> (js_error + nat) \<times> world" where
  "succeeding_op v d w = (Inr v, w\<lparr> clock := clock w + d \<rparr>)"

text \<open>A target that resets every HTTP/1.1 connection and answers 200 on every other
  protocol, and a target on which every request runs into the 8 s abort signal.\<close>

definition h1_down_net :: network where
  "h1_down_net url path p k =
     (if p = Str ''h1.1''
      then \<lparr> outcome = Rejected (Error (StrCode ''ECONNRESET'') (Some ''read ECONNRESET'')),
             wall_ms = 3, elapsed_ns = 3000000 \<rparr>
      else \<lparr> outcome = Completed 200, wall_ms = 40, elapsed_ns = 40000000 \<rparr>)"

definition timeout_net :: network where
  "timeout_net url path p k =
     \<lparr> outcome = Rejected (Error (NumCode 23) (Some ''The operation was aborted due to timeout'')),
       wall_ms = 8000, elapsed_ns = 8000000000 \<rparr>"

text \<open>Response headers: none; one \<^verbatim>\<open>alt-svc\<close> line that offers \<open>h3\<close>; two \<^verbatim>\<open>alt-svc\<close>
  lines, the first of which offers \<open>h3\<close>; and one line that offers only \<open>h2\<close>, on a host
  whose name contains the letters h3.\<close>

definition no_headers :: "string \<Rightarrow> header_value option" where
  "no_headers name = None"

definition single_alt_svc :: "string \<Rightarrow> header_value option" where
  "single_alt_svc name =
     (if name = ''alt-svc'' then Some (Single ''h3=\":443\"; ma=86400'') else None)"

definition repeated_alt_svc :: "string \<Rightarrow> header_value option" where
  "repeated_alt_svc name =
     (if name = ''alt-svc''
      then Some (Multi [''h3=\":443\"; ma=86400'', ''h2=\":443\"; ma=86400'']) else None)"

definition lookalike_alt_svc :: "string \<Rightarrow> header_value option" where
  "lookalike_alt_svc name =
     (if name = ''alt-svc'' then Some (Single ''h2=\"alth3.example.net:443\"; ma=86400'') else None)"

text \<open>A configuration as \<^verbatim>\<open>parseArgs\<close> builds it for
  \<^verbatim>\<open>-u https://target -c 3 -a madeyoureset\<close>.\<close>

definition sample_config :: config where
  "sample_config = \<lparr> cfg_url = Some ''https://target'', cfg_time = 1, cfg_conc = 3,
     cfg_attack = ''madeyoureset'', cfg_protocol = None, cfg_adaptiveDelay = False \<rparr>"

section \<open>Properties of the circuit breaker\<close>

lemma execute_all_append:
  "execute_all b (xs @ ys) = execute_all (execute_all b xs) ys"
  by (induction xs arbitrary: b) auto

lemma execute_open_rejects:
  "state b = OPEN \<Longrightarrow> clock w < nextAttempt b \<Longrightarrow> execute b fn w = (Inl circuit_open_error, b, w)"
  by (simp add: execute_def execute_gate_def)

text \<open>The two completion sections never leave OPEN, and a resolved operation touches only the
  failure counter unless the breaker is HALF-OPEN; so a call that was admitted earlier and
  completes later cannot close an open breaker.\<close>

lemma completions_keep_open:
  "state b = OPEN \<Longrightarrow> state (execute_resolved b) = OPEN \<and> state (execute_rejected b now) = OPEN"
  by (simp add: execute_resolved_def execute_rejected_def Let_def)

lemma resolved_outside_half_open:
  "state b \<noteq> HALF_OPEN \<Longrightarrow> execute_resolved b = b\<lparr> failCount := max 0 (failCount b - 1) \<rparr>"
  by (simp add: execute_resolved_def)

lemma execute_closed_failure:
  "state b = CLOSED \<Longrightarrow> isl (fst (fn w)) \<Longrightarrow>
   fst (snd (execute b fn w)) = execute_rejected b (clock (snd (fn w)))"
  by (cases "fn w") (auto simp: execute_def execute_gate_def split: sum.splits)

lemma failures_below_threshold:
  "state b = CLOSED \<Longrightarrow> \<forall>c \<in> set calls. op_fails c \<Longrightarrow>
   failCount b + int (length calls) < threshold b \<Longrightarrow>
   execute_all b calls = b\<lparr> failCount := failCount b + int (length calls) \<rparr>"
proof (induction calls arbitrary: b)
  case Nil
  then show ?case by simp
next
  case (Cons c calls)
  obtain fn w where c: "c = (fn, w)" by (cases c)
  from Cons.prems c have f: "isl (fst (fn w))" by (simp add: op_fails_def)
  let ?b = "b\<lparr> failCount := failCount b + 1 \<rparr>"
  from Cons.prems have lt: "\<not> threshold b \<le> failCount b + 1" by simp
  have step: "fst (snd (execute b fn w)) = ?b"
    using execute_closed_failure [of b fn w] f Cons.prems(1) lt
    by (simp add: execute_rejected_def Let_def)
  have "execute_all ?b calls = ?b\<lparr> failCount := failCount ?b + int (length calls) \<rparr>"
    using Cons.prems by (intro Cons.IH) auto
  then show ?case using c step by (simp add: add.assoc add.commute)
qed

lemma rejected_window_all:
  "state b = OPEN \<Longrightarrow> \<forall>c \<in> set calls. clock (snd c) < nextAttempt b \<Longrightarrow> execute_all b calls = b"
  by (induction calls) (auto simp: execute_open_rejects)

lemma opens_at_threshold:
  assumes len: "int (length calls) = thr" and ne: "calls \<noteq> []"
    and fails: "\<forall>c \<in> set calls. op_fails c"
  shows "execute_all (CircuitBreaker thr tmo hor) calls =
     (CircuitBreaker thr tmo hor)\<lparr> failCount := thr, state := OPEN,
        nextAttempt := clock (snd (fst (last calls) (snd (last calls)))) + tmo \<rparr>"
proof -
  let ?b0 = "CircuitBreaker thr tmo hor"
  obtain fn w where l: "last calls = (fn, w)" by (cases "last calls")
  from ne have split: "calls = butlast calls @ [(fn, w)]" using l by (metis append_butlast_last_id)
  have st: "state ?b0 = CLOSED" "failCount ?b0 = 0" "threshold ?b0 = thr" "timeout ?b0 = tmo"
    by (simp_all add: CircuitBreaker_def)
  have bl: "int (length (butlast calls)) = thr - 1" using len ne by (simp add: of_nat_diff Suc_leI)
  have fb: "\<forall>c \<in> set (butlast calls). op_fails c" using fails by (meson in_set_butlastD)
  have pre: "execute_all ?b0 (butlast calls) = ?b0\<lparr> failCount := thr - 1 \<rparr>"
    using failures_below_threshold [of ?b0 "butlast calls"] st fb bl by simp
  have f: "isl (fst (fn w))" using fails l ne by (metis last_in_set op_fails_def fst_conv snd_conv)
  have "execute_all ?b0 calls = execute_all (?b0\<lparr> failCount := thr - 1 \<rparr>) [(fn, w)]"
    using split pre execute_all_append by metis
  also have "\<dots> = execute_rejected (?b0\<lparr> failCount := thr - 1 \<rparr>) (clock (snd (fn w)))"
    using execute_closed_failure [of "?b0\<lparr> failCount := thr - 1 \<rparr>" fn w] st f by simp
  also have "\<dots> = ?b0\<lparr> failCount := thr, state := OPEN, nextAttempt := clock (snd (fn w)) + tmo \<rparr>"
    by (simp add: execute_rejected_def Let_def CircuitBreaker_def)
  finally show ?thesis using l by simp
qed

lemma closed_before_threshold:
  assumes len: "int (length calls) = thr" and fails: "\<forall>c \<in> set calls. op_fails c"
    and k: "k < length calls"
  shows "state (execute_all (CircuitBreaker thr tmo hor) (take k calls)) = CLOSED"
proof -
  let ?b0 = "CircuitBreaker thr tmo hor"
  have st: "state ?b0 = CLOSED" "failCount ?b0 = 0" "threshold ?b0 = thr"
    by (simp_all add: CircuitBreaker_def)
  have fb: "\<forall>c \<in> set (take k calls). op_fails c" using fails by (meson in_set_takeD)
  have "int (length (take k calls)) < thr" using len k by simp
  then have "execute_all ?b0 (take k calls) = ?b0\<lparr> failCount := failCount ?b0 + int (length (take k calls)) \<rparr>"
    using failures_below_threshold [of ?b0 "take k calls"] st fb by simp
  then show ?thesis using st by simp
qed

text \<open>
  C1. Starting from the breaker the constructor returns (CLOSED), with a positive threshold:
  a run of \<open>threshold\<close> calls whose operations all fail leaves the breaker CLOSED after
  every proper prefix and OPEN after the last call, with \<open>nextAttempt\<close> equal to
  \<^verbatim>\<open>Date.now()\<close> at the last failure plus \<open>timeout\<close>. Every later call made while the clock
  is below \<open>nextAttempt\<close> returns the synthetic circuit-open error with the breaker and the
  world unchanged, whatever the operation: the operation is not invoked and the state stays OPEN.
\<close>

theorem breaker_opens_after_threshold_failures:
  assumes "0 < thr" and "int (length calls) = thr" and "\<forall>c \<in> set calls. op_fails c"
  shows "(\<forall>k < length calls. state (execute_all (CircuitBreaker thr tmo hor) (take k calls)) = CLOSED) \<and>
     state (execute_all (CircuitBreaker thr tmo hor) calls) = OPEN \<and>
     nextAttempt (execute_all (CircuitBreaker thr tmo hor) calls) =
       clock (snd (fst (last calls) (snd (last calls)))) + tmo \<and>
     (\<forall>fn w. clock w < nextAttempt (execute_all (CircuitBreaker thr tmo hor) calls) \<longrightarrow>
        execute (execute_all (CircuitBreaker thr tmo hor) calls) fn w =
          (Inl circuit_open_error, execute_all (CircuitBreaker thr tmo hor) calls, w)) \<and>
     (\<forall>more. (\<forall>c \<in> set more. clock (snd c) < nextAttempt (execute_all (CircuitBreaker thr tmo hor) calls)) \<longrightarrow>
        execute_all (CircuitBreaker thr tmo hor) (calls @ more) =
          execute_all (CircuitBreaker thr tmo hor) calls)"
proof -
  let ?b = "execute_all (CircuitBreaker thr tmo hor) calls"
  from assms have ne: "calls \<noteq> []" by auto
  have eq: "?b = (CircuitBreaker thr tmo hor)\<lparr> failCount := thr, state := OPEN,
        nextAttempt := clock (snd (fst (last calls) (snd (last calls)))) + tmo \<rparr>"
    using opens_at_threshold [OF assms(2) ne assms(3)] .
  have op: "state ?b = OPEN" by (simp add: eq)
  have na: "nextAttempt ?b = clock (snd (fst (last calls) (snd (last calls)))) + tmo"
    by (simp add: eq)
  have before: "\<forall>k < length calls. state (execute_all (CircuitBreaker thr tmo hor) (take k calls)) = CLOSED"
    using closed_before_threshold [OF assms(2) assms(3)] by blast
  have rej: "\<forall>fn w. clock w < nextAttempt ?b \<longrightarrow> execute ?b fn w = (Inl circuit_open_error, ?b, w)"
    using execute_open_rejects [OF op] by blast
  have stay: "\<forall>more. (\<forall>c \<in> set more. clock (snd c) < nextAttempt ?b) \<longrightarrow>
        execute_all (CircuitBreaker thr tmo hor) (calls @ more) = ?b"
    using rejected_window_all [OF op] by (auto simp: execute_all_append)
  show ?thesis using before op na rej stay by blast
qed

theorem breaker_opens_after_threshold_failures_witness:
  "state (execute_all (CircuitBreaker 2 5000 3)
      [(failing_op (Error (StrCode ''ECONNRESET'') None) 10, world_at 100)]) = CLOSED \<and>
   state (execute_all (CircuitBreaker 2 5000 3)
      [(failing_op (Error (StrCode ''ECONNRESET'') None) 10, world_at 100),
       (failing_op (Error (StrCode ''ECONNRESET'') None) 10, world_at 200)]) = OPEN \<and>
   nextAttempt (execute_all (CircuitBreaker 2 5000 3)
      [(failing_op (Error (StrCode ''ECONNRESET'') None) 10, world_at 100),
       (failing_op (Error (StrCode ''ECONNRESET'') None) 10, world_at 200)]) = 5210 \<and>
   fst (execute (execute_all (CircuitBreaker 2 5000 3)
      [(failing_op (Error (StrCode ''ECONNRESET'') None) 10, world_at 100),
       (failing_op (Error (StrCode ''ECONNRESET'') None) 10, world_at 200)])
      (succeeding_op 7 10) (world_at 5209)) = Inl circuit_open_error \<and>
   snd (snd (execute (execute_all (CircuitBreaker 2 5000 3)
      [(failing_op (Error (StrCode ''ECONNRESET'') None) 10, world_at 100),
       (failing_op (Error (StrCode ''ECONNRESET'') None) 10, world_at 200)])
      (succeeding_op 7 10) (world_at 5209))) = world_at 5209"
proof -
  let ?e = "Error (StrCode ''ECONNRESET'') None"
  let ?calls = "[(failing_op ?e 10, world_at 100), (failing_op ?e 10, world_at 200)]"
  let ?b = "execute_all (CircuitBreaker 2 5000 3) ?calls"
  have h1: "(0::int) < 2" by simp
  have h2: "int (length ?calls) = 2" by simp
  have h3: "\<forall>c \<in> set ?calls. op_fails c" by (simp add: op_fails_def failing_op_def)
  note t = breaker_opens_after_threshold_failures [OF h1 h2 h3, of 5000 3]
  from t have a: "\<forall>k < length ?calls. state (execute_all (CircuitBreaker 2 5000 3) (take k ?calls)) = CLOSED"
    by (rule conjunct1)
  have "state (execute_all (CircuitBreaker 2 5000 3) (take (Suc 0) ?calls)) = CLOSED"
    using a [rule_format, of "Suc 0"] by simp
  then have c1: "state (execute_all (CircuitBreaker 2 5000 3) [(failing_op ?e 10, world_at 100)]) = CLOSED"
    by simp
  from t have c2: "state ?b = OPEN" by blast
  from t have "nextAttempt ?b = clock (snd (fst (last ?calls) (snd (last ?calls)))) + 5000" by blast
  then have c3: "nextAttempt ?b = 5210" by (simp add: failing_op_def world_at_def)
  have lt: "clock (world_at 5209) < nextAttempt ?b" by (simp only: c3) (simp add: world_at_def)
  from t lt have rej: "execute ?b (succeeding_op 7 10) (world_at 5209) = (Inl circuit_open_error, ?b, world_at 5209)"
    by blast
  have c4: "fst (execute ?b (succeeding_op 7 10) (world_at 5209)) = Inl circuit_open_error"
    by (simp only: rej fst_conv)
  have c5: "snd (snd (execute ?b (succeeding_op 7 10) (world_at 5209))) = world_at 5209"
    by (simp only: rej snd_conv)
  show ?thesis using c1 c2 c3 c4 c5 by blast
qed

section \<open>Recovery through HALF-OPEN\<close>

lemma execute_admitted:
  "execute_gate b (clock w) = Inr b1 \<Longrightarrow>
   fst (execute b fn w) = fst (fn w) \<and> snd (snd (execute b fn w)) = snd (fn w)"
  by (cases "fn w") (auto simp: execute_def split: sum.splits)

lemma execute_open_expired:
  assumes "state b = OPEN" and "nextAttempt b \<le> clock w"
  shows "execute_gate b (clock w) = Inr (b\<lparr> state := HALF_OPEN, successCount := 0 \<rparr>)"
    and "execute b fn w = execute (b\<lparr> state := HALF_OPEN, successCount := 0 \<rparr>) fn w"
  using assms by (simp_all add: execute_def execute_gate_def)

lemma execute_half_open_success:
  "state b = HALF_OPEN \<Longrightarrow> \<not> isl (fst (fn w)) \<Longrightarrow>
   fst (snd (execute b fn w)) = execute_resolved b"
  by (cases "fn w") (auto simp: execute_def execute_gate_def split: sum.splits)

lemma execute_half_open_failure:
  "state b = HALF_OPEN \<Longrightarrow> isl (fst (fn w)) \<Longrightarrow>
   fst (snd (execute b fn w)) =
     b\<lparr> failCount := failCount b + 1, state := OPEN, nextAttempt := clock (snd (fn w)) + timeout b \<rparr>"
  by (cases "fn w") (auto simp: execute_def execute_gate_def execute_rejected_def split: sum.splits)

lemma successes_below_trial_count:
  "state b = HALF_OPEN \<Longrightarrow> \<forall>c \<in> set calls. op_succeeds c \<Longrightarrow>
   successCount b + int (length calls) < halfOpenRequests b \<Longrightarrow>
   execute_all b calls = b\<lparr> successCount := successCount b + int (length calls) \<rparr>"
proof (induction calls arbitrary: b)
  case Nil
  then show ?case by simp
next
  case (Cons c calls)
  obtain fn w where c: "c = (fn, w)" by (cases c)
  from Cons.prems c have ok: "\<not> isl (fst (fn w))" by (simp add: op_succeeds_def)
  let ?b = "b\<lparr> successCount := successCount b + 1 \<rparr>"
  from Cons.prems have lt: "\<not> halfOpenRequests b \<le> successCount b + 1" by simp
  have step: "fst (snd (execute b fn w)) = ?b"
    using execute_half_open_success [of b fn w] ok Cons.prems(1) lt
    by (simp add: execute_resolved_def Let_def)
  have "execute_all ?b calls = ?b\<lparr> successCount := successCount ?b + int (length calls) \<rparr>"
    using Cons.prems by (intro Cons.IH) auto
  then show ?case using c step by (simp add: add.assoc add.commute)
qed

lemma closes_after_trial_successes:
  assumes st: "state b = HALF_OPEN" and zero: "successCount b = 0"
    and len: "int (length calls) = halfOpenRequests b" and ne: "calls \<noteq> []"
    and oks: "\<forall>c \<in> set calls. op_succeeds c"
  shows "execute_all b calls = b\<lparr> failCount := 0, successCount := 0, state := CLOSED \<rparr>"
proof -
  obtain fn w where l: "last calls = (fn, w)" by (cases "last calls")
  from ne have split: "calls = butlast calls @ [(fn, w)]" using l by (metis append_butlast_last_id)
  have bl: "int (length (butlast calls)) = halfOpenRequests b - 1"
    using len ne by (simp add: of_nat_diff Suc_leI)
  have ob: "\<forall>c \<in> set (butlast calls). op_succeeds c" using oks by (meson in_set_butlastD)
  let ?b1 = "b\<lparr> successCount := halfOpenRequests b - 1 \<rparr>"
  have pre: "execute_all b (butlast calls) = ?b1"
    using successes_below_trial_count [of b "butlast calls"] st zero ob bl by simp
  have ok: "\<not> isl (fst (fn w))"
    using oks l ne by (metis last_in_set op_succeeds_def fst_conv snd_conv)
  have "execute_all b calls = execute_all ?b1 [(fn, w)]"
    using split pre execute_all_append by metis
  also have "\<dots> = execute_resolved ?b1"
    using execute_half_open_success [of ?b1 fn w] st ok by simp
  also have "\<dots> = b\<lparr> failCount := 0, successCount := 0, state := CLOSED \<rparr>"
    using st by (simp add: execute_resolved_def Let_def reset_def)
  finally show ?thesis .
qed

lemma half_open_before_trial_count:
  assumes st: "state b = HALF_OPEN" and zero: "successCount b = 0"
    and len: "int (length calls) = halfOpenRequests b"
    and oks: "\<forall>c \<in> set calls. op_succeeds c" and k: "k < length calls"
  shows "state (execute_all b (take k calls)) = HALF_OPEN"
proof -
  have ob: "\<forall>c \<in> set (take k calls). op_succeeds c" using oks by (meson in_set_takeD)
  have "successCount b + int (length (take k calls)) < halfOpenRequests b"
    using len k zero by simp
  then have "execute_all b (take k calls) = b\<lparr> successCount := successCount b + int (length (take k calls)) \<rparr>"
    using successes_below_trial_count [of b "take k calls"] st ob by simp
  then show ?thesis using st by simp
qed

text \<open>
  C2. (i) A call on an OPEN breaker whose \<open>nextAttempt\<close> has been reached passes the gate:
  the gate yields the breaker in state HALF-OPEN with the success counter 0, and the call then
  behaves as a call on that breaker, so the operation is invoked (its outcome and its world are
  the call's). (ii) From HALF-OPEN with success counter 0 and a positive \<open>halfOpenRequests\<close>,
  that many calls whose operations all succeed leave the breaker HALF-OPEN after every proper
  prefix and CLOSED with both counters 0 after the last; (iii) the same holds counted from the
  admitting call on the OPEN breaker. (iv) One failed operation on a HALF-OPEN breaker, or (v) a
  failed operation of the admitting call, leaves the breaker OPEN with \<open>nextAttempt\<close> equal to
  \<^verbatim>\<open>Date.now()\<close> at the failure plus \<open>timeout\<close>.
\<close>

theorem half_open_probe_and_recovery:
  "(state b = OPEN \<and> nextAttempt b \<le> clock w \<longrightarrow>
      execute_gate b (clock w) = Inr (b\<lparr> state := HALF_OPEN, successCount := 0 \<rparr>) \<and>
      execute b fn w = execute (b\<lparr> state := HALF_OPEN, successCount := 0 \<rparr>) fn w \<and>
      fst (execute b fn w) = fst (fn w) \<and> snd (snd (execute b fn w)) = snd (fn w)) \<and>
   (state b = HALF_OPEN \<and> successCount b = 0 \<and> 0 < halfOpenRequests b \<and>
    int (length calls) = halfOpenRequests b \<and> (\<forall>c \<in> set calls. op_succeeds c) \<longrightarrow>
      (\<forall>k < length calls. state (execute_all b (take k calls)) = HALF_OPEN) \<and>
      state (execute_all b calls) = CLOSED \<and>
      failCount (execute_all b calls) = 0 \<and> successCount (execute_all b calls) = 0) \<and>
   (state b = OPEN \<and> nextAttempt b \<le> clock w \<and> 0 < halfOpenRequests b \<and>
    int (length ((fn, w) # calls)) = halfOpenRequests b \<and>
    (\<forall>c \<in> set ((fn, w) # calls). op_succeeds c) \<longrightarrow>
      state (execute_all b ((fn, w) # calls)) = CLOSED \<and>
      failCount (execute_all b ((fn, w) # calls)) = 0 \<and>
      successCount (execute_all b ((fn, w) # calls)) = 0) \<and>
   (state b = HALF_OPEN \<and> isl (fst (fn w)) \<longrightarrow>
      state (fst (snd (execute b fn w))) = OPEN \<and>
      nextAttempt (fst (snd (execute b fn w))) = clock (snd (fn w)) + timeout b) \<and>
   (state b = OPEN \<and> nextAttempt b \<le> clock w \<and> isl (fst (fn w)) \<longrightarrow>
      state (fst (snd (execute b fn w))) = OPEN \<and>
      nextAttempt (fst (snd (execute b fn w))) = clock (snd (fn w)) + timeout b)"
proof (intro conjI impI; (elim conjE)?)
  let ?h = "b\<lparr> state := HALF_OPEN, successCount := 0 \<rparr>"
  {
    assume o: "state b = OPEN" and t: "nextAttempt b \<le> clock w"
    show "execute_gate b (clock w) = Inr ?h" using execute_open_expired(1) [OF o t] .
    show "execute b fn w = execute ?h fn w" using execute_open_expired(2) [OF o t] .
    show "fst (execute b fn w) = fst (fn w)"
      using execute_admitted [OF execute_open_expired(1) [OF o t]] by blast
    show "snd (snd (execute b fn w)) = snd (fn w)"
      using execute_admitted [OF execute_open_expired(1) [OF o t]] by blast
  }
  {
    assume h: "state b = HALF_OPEN" "successCount b = 0" "0 < halfOpenRequests b"
      "int (length calls) = halfOpenRequests b" "\<forall>c \<in> set calls. op_succeeds c"
    then have ne: "calls \<noteq> []" by auto
    note fin = closes_after_trial_successes [OF h(1) h(2) h(4) ne h(5)]
    show "\<forall>k < length calls. state (execute_all b (take k calls)) = HALF_OPEN"
      using half_open_before_trial_count [OF h(1) h(2) h(4) h(5)] by blast
    show "state (execute_all b calls) = CLOSED" by (simp add: fin)
    show "failCount (execute_all b calls) = 0" by (simp add: fin)
    show "successCount (execute_all b calls) = 0" by (simp add: fin)
  }
  {
    assume o: "state b = OPEN" and t: "nextAttempt b \<le> clock w"
      and h: "0 < halfOpenRequests b" "int (length ((fn, w) # calls)) = halfOpenRequests b"
        "\<forall>c \<in> set ((fn, w) # calls). op_succeeds c"
    have eq: "execute_all b ((fn, w) # calls) = execute_all ?h ((fn, w) # calls)"
      using execute_open_expired(2) [OF o t, of fn] by simp
    have fin: "execute_all ?h ((fn, w) # calls) = ?h\<lparr> failCount := 0, successCount := 0, state := CLOSED \<rparr>"
      using closes_after_trial_successes [of ?h "(fn, w) # calls"] h by simp
    show "state (execute_all b ((fn, w) # calls)) = CLOSED" by (simp only: eq fin) simp
    show "failCount (execute_all b ((fn, w) # calls)) = 0" by (simp only: eq fin) simp
    show "successCount (execute_all b ((fn, w) # calls)) = 0" by (simp only: eq fin) simp
  }
  {
    assume h: "state b = HALF_OPEN" "isl (fst (fn w))"
    show "state (fst (snd (execute b fn w))) = OPEN"
      using execute_half_open_failure [of b fn w] h by simp
    show "nextAttempt (fst (snd (execute b fn w))) = clock (snd (fn w)) + timeout b"
      using execute_half_open_failure [of b fn w] h by simp
  }
  {
    assume o: "state b = OPEN" and t: "nextAttempt b \<le> clock w" and f: "isl (fst (fn w))"
    have eq: "fst (snd (execute b fn w)) =
       ?h\<lparr> failCount := failCount ?h + 1, state := OPEN, nextAttempt := clock (snd (fn w)) + timeout ?h \<rparr>"
      using execute_half_open_failure [of ?h fn w] f execute_open_expired(2) [OF o t, of fn] by simp
    show "state (fst (snd (execute b fn w))) = OPEN" by (simp add: eq)
    show "nextAttempt (fst (snd (execute b fn w))) = clock (snd (fn w)) + timeout b" by (simp add: eq)
  }
qed

theorem half_open_probe_and_recovery_witness:
  "execute_gate ((CircuitBreaker 2 5000 2)\<lparr> failCount := 2, state := OPEN, nextAttempt := 5210 \<rparr>) 6000 =
     Inr ((CircuitBreaker 2 5000 2)\<lparr> failCount := 2, state := HALF_OPEN, nextAttempt := 5210 \<rparr>) \<and>
   fst (execute ((CircuitBreaker 2 5000 2)\<lparr> failCount := 2, state := OPEN, nextAttempt := 5210 \<rparr>)
      (succeeding_op 7 10) (world_at 6000)) = Inr 7 \<and>
   state (execute_all ((CircuitBreaker 2 5000 2)\<lparr> failCount := 2, state := OPEN, nextAttempt := 5210 \<rparr>)
      [(succeeding_op 7 10, world_at 6000), (succeeding_op 7 10, world_at 6100)]) = CLOSED \<and>
   failCount (execute_all ((CircuitBreaker 2 5000 2)\<lparr> failCount := 2, state := OPEN, nextAttempt := 5210 \<rparr>)
      [(succeeding_op 7 10, world_at 6000), (succeeding_op 7 10, world_at 6100)]) = 0 \<and>
   state (fst (snd (execute ((CircuitBreaker 2 5000 2)\<lparr> failCount := 2, state := OPEN, nextAttempt := 5210 \<rparr>)
      (failing_op (Error (NumCode 23) None) 10) (world_at 6000)))) = OPEN \<and>
   nextAttempt (fst (snd (execute ((CircuitBreaker 2 5000 2)\<lparr> failCount := 2, state := OPEN, nextAttempt := 5210 \<rparr>)
      (failing_op (Error (NumCode 23) None) 10) (world_at 6000)))) = 11010"
proof -
  let ?b = "(CircuitBreaker 2 5000 2)\<lparr> failCount := 2, state := OPEN, nextAttempt := 5210 \<rparr>"
  let ?ok = "succeeding_op 7 10"
  let ?ko = "failing_op (Error (NumCode 23) None) 10"
  let ?rest = "[(?ok, world_at 6100)]"
  note t = half_open_probe_and_recovery [of ?b "world_at 6000" ?ok ?rest]
  note u = half_open_probe_and_recovery [of ?b "world_at 6000" ?ko ?rest]
  have p: "state ?b = OPEN \<and> nextAttempt ?b \<le> clock (world_at 6000)"
    by (simp add: CircuitBreaker_def world_at_def)
  have q: "0 < halfOpenRequests ?b \<and> int (length ((?ok, world_at 6000) # ?rest)) = halfOpenRequests ?b \<and>
      (\<forall>c \<in> set ((?ok, world_at 6000) # ?rest). op_succeeds c)"
    by (simp add: CircuitBreaker_def op_succeeds_def succeeding_op_def)
  have r: "isl (fst (?ko (world_at 6000)))" by (simp add: failing_op_def)
  from t p have "execute_gate ?b (clock (world_at 6000)) = Inr (?b\<lparr> state := HALF_OPEN, successCount := 0 \<rparr>)"
    by blast
  then have c1: "execute_gate ?b 6000 =
      Inr ((CircuitBreaker 2 5000 2)\<lparr> failCount := 2, state := HALF_OPEN, nextAttempt := 5210 \<rparr>)"
    by (simp add: world_at_def CircuitBreaker_def)
  from t p have "fst (execute ?b ?ok (world_at 6000)) = fst (?ok (world_at 6000))" by blast
  then have c2: "fst (execute ?b ?ok (world_at 6000)) = Inr 7" by (simp add: succeeding_op_def)
  from t p q have c3: "state (execute_all ?b ((?ok, world_at 6000) # ?rest)) = CLOSED" by blast
  from t p q have c4: "failCount (execute_all ?b ((?ok, world_at 6000) # ?rest)) = 0" by blast
  from u p r have c5: "state (fst (snd (execute ?b ?ko (world_at 6000)))) = OPEN" by blast
  from u p r have "nextAttempt (fst (snd (execute ?b ?ko (world_at 6000)))) =
      clock (snd (?ko (world_at 6000))) + timeout ?b" by blast
  then have c6: "nextAttempt (fst (snd (execute ?b ?ko (world_at 6000)))) = 11010"
    by (simp add: failing_op_def world_at_def CircuitBreaker_def)
  show ?thesis using c1 c2 c3 c4 c5 c6 by blast
qed

section \<open>Hysteresis in CLOSED\<close>

lemma failCount_never_negative:
  "0 \<le> failCount b \<Longrightarrow> 0 \<le> failCount (fst (snd (execute b fn w)))"
  by (cases "fn w")
     (auto simp: execute_def execute_gate_def execute_resolved_def execute_rejected_def reset_def Let_def
           split: sum.splits)

text \<open>
  C3. A call that succeeds on a CLOSED breaker whose failure counter is not negative (it never
  is, by \<open>failCount_never_negative\<close>) returns the operation's value, leaves the state CLOSED,
  and lowers the failure counter by exactly 1, or keeps it at 0; nothing else of the breaker
  changes.
\<close>

theorem closed_success_decays_failCount:
  assumes "state b = CLOSED" and "0 \<le> failCount b" and "fst (fn w) = Inr r"
  shows "fst (execute b fn w) = Inr r \<and>
     state (fst (snd (execute b fn w))) = CLOSED \<and>
     failCount (fst (snd (execute b fn w))) = (if failCount b = 0 then 0 else failCount b - 1) \<and>
     0 \<le> failCount (fst (snd (execute b fn w))) \<and>
     fst (snd (execute b fn w)) = b\<lparr> failCount := max 0 (failCount b - 1) \<rparr>"
  using assms
  by (cases "fn w") (auto simp: execute_def execute_gate_def execute_resolved_def)


theorem closed_success_decays_failCount_witness:
  "fst (execute ((CircuitBreaker 10 5000 3)\<lparr> failCount := 2 \<rparr>) (succeeding_op 7 10) (world_at 100)) = Inr 7 \<and>
   state (fst (snd (execute ((CircuitBreaker 10 5000 3)\<lparr> failCount := 2 \<rparr>) (succeeding_op 7 10) (world_at 100)))) = CLOSED \<and>
   failCount (fst (snd (execute ((CircuitBreaker 10 5000 3)\<lparr> failCount := 2 \<rparr>) (succeeding_op 7 10) (world_at 100)))) = 1 \<and>
   failCount (fst (snd (execute (CircuitBreaker 10 5000 3) (succeeding_op 7 10) (world_at 100)))) = 0"
proof -
  let ?b = "(CircuitBreaker 10 5000 3)\<lparr> failCount := 2 \<rparr>"
  let ?fresh = "CircuitBreaker 10 5000 3"
  have h: "state ?b = CLOSED" "0 \<le> failCount ?b" "fst (succeeding_op 7 10 (world_at 100)) = Inr 7"
    by (simp_all add: CircuitBreaker_def succeeding_op_def)
  have h0: "state ?fresh = CLOSED" "0 \<le> failCount ?fresh" by (simp_all add: CircuitBreaker_def)
  note t = closed_success_decays_failCount [of ?b "succeeding_op 7 10" "world_at 100" 7, OF h]
  note t0 = closed_success_decays_failCount [of ?fresh "succeeding_op 7 10" "world_at 100" 7, OF h0 h(3)]
  from t have c1: "fst (execute ?b (succeeding_op 7 10) (world_at 100)) = Inr 7" by blast
  from t have c2: "state (fst (snd (execute ?b (succeeding_op 7 10) (world_at 100)))) = CLOSED" by blast
  from t have e3: "failCount (fst (snd (execute ?b (succeeding_op 7 10) (world_at 100)))) =
      (if failCount ?b = 0 then 0 else failCount ?b - 1)" by blast
  have v3: "(if failCount ?b = 0 then 0 else failCount ?b - 1) = 1" by (simp add: CircuitBreaker_def)
  have c3: "failCount (fst (snd (execute ?b (succeeding_op 7 10) (world_at 100)))) = 1"
    by (simp only: e3 v3)
  from t0 have e4: "failCount (fst (snd (execute ?fresh (succeeding_op 7 10) (world_at 100)))) =
      (if failCount ?fresh = 0 then 0 else failCount ?fresh - 1)" by blast
  have v4: "(if failCount ?fresh = 0 then 0 else failCount ?fresh - 1) = 0" by (simp add: CircuitBreaker_def)
  have c4: "failCount (fst (snd (execute ?fresh (succeeding_op 7 10) (world_at 100)))) = 0"
    by (simp only: e4 v4)
  show ?thesis using c1 c2 c3 c4 by blast
qed

section \<open>Failover over the protocol list\<close>

lemma sendRequest_loop_success:
  "execute b (attempt net url path p) w = (Inr res, b', w') \<Longrightarrow>
   sendRequest_loop net url path protos (p # rest) b w = (Inr (Some res), b', w')"
  by simp

lemma sendRequest_loop_continue:
  "execute b (attempt net url path p) w = (Inl err, b', w') \<Longrightarrow> p \<noteq> last_protocol protos \<Longrightarrow>
   sendRequest_loop net url path protos (p # rest) b w = sendRequest_loop net url path protos rest b' w'"
  by simp

lemma sendRequest_loop_rethrow:
  "execute b (attempt net url path p) w = (Inl err, b', w') \<Longrightarrow> p = last_protocol protos \<Longrightarrow>
   sendRequest_loop net url path protos (p # rest) b w =
     (Inl err, b', w'\<lparr> stats := record_failure (stats w') err \<rparr>)"
  by simp

lemma sendRequest_loop_by_position:
  "rest \<noteq> [] \<Longrightarrow> last rest = last_protocol protos \<Longrightarrow>
   last_protocol protos \<notin> set (butlast rest) \<Longrightarrow>
   sendRequest_loop net url path protos rest b w = spec_dispatch net url path rest b w"
proof (induction rest arbitrary: b w)
  case Nil
  then show ?case by simp
next
  case (Cons p rest)
  obtain r b1 w1 where e: "execute b (attempt net url path p) w = (r, b1, w1)"
    by (cases "execute b (attempt net url path p) w")
  show ?case
  proof (cases "rest = []")
    case True
    with Cons.prems e show ?thesis by (cases r) simp_all
  next
    case False
    with Cons.prems have ne: "p \<noteq> last_protocol protos" by auto
    from False Cons.prems have "last rest = last_protocol protos"
      "last_protocol protos \<notin> set (butlast rest)" by auto
    with False have "sendRequest_loop net url path protos rest b1 w1 = spec_dispatch net url path rest b1 w1"
      by (intro Cons.IH)
    with e ne False show ?thesis by (cases r) simp_all
  qed
qed

lemma sendRequest_follows_spec_without_repetition:
  "protos \<noteq> [] \<Longrightarrow> last protos \<notin> set (butlast protos) \<Longrightarrow>
   sendRequest net url path b protos w = spec_dispatch net url path protos b w"
  unfolding sendRequest_def
  by (intro sendRequest_loop_by_position) (simp_all add: last_protocol_def)

text \<open>On a non-empty list a dispatch returns a result or throws; it never runs off the
  end of the loop.\<close>

lemma sendRequest_loop_returns_or_throws:
  "rest \<noteq> [] \<Longrightarrow> last rest = last_protocol protos \<Longrightarrow>
   fst (sendRequest_loop net url path protos rest b w) \<noteq> Inr None"
proof (induction rest arbitrary: b w)
  case Nil
  then show ?case by simp
next
  case (Cons p rest)
  obtain r b1 w1 where e: "execute b (attempt net url path p) w = (r, b1, w1)"
    by (cases "execute b (attempt net url path p) w")
  show ?case
  proof (cases r)
    case (Inr res)
    with e show ?thesis by simp
  next
    case (Inl err)
    show ?thesis
    proof (cases "p = last_protocol protos")
      case True
      with e Inl show ?thesis by simp
    next
      case False
      with Cons.prems have ne: "rest \<noteq> []" by auto
      with Cons.prems have "last rest = last_protocol protos" by simp
      with ne have "fst (sendRequest_loop net url path protos rest b1 w1) \<noteq> Inr None"
        by (rule Cons.IH)
      with e Inl False show ?thesis by simp
    qed
  qed
qed

lemma sendRequest_returns_or_throws:
  "protos \<noteq> [] \<Longrightarrow> fst (sendRequest net url path b protos w) \<noteq> Inr None"
  unfolding sendRequest_def
  by (rule sendRequest_loop_returns_or_throws) (simp_all add: last_protocol_def)

lemma failover_example:
  "fst (sendRequest h1_down_net ''https://target:443'' ''/'' (CircuitBreaker 15 8000 5)
      [Str ''h1.1'', Str ''h2''] (world_at 0)) =
     Inr (Some \<lparr> statusCode = 200, latency = 40, proto = Str ''h2'' \<rparr>) \<and>
   failed (stats (snd (snd (sendRequest h1_down_net ''https://target:443'' ''/'' (CircuitBreaker 15 8000 5)
      [Str ''h1.1'', Str ''h2''] (world_at 0))))) = 0 \<and>
   failCount (fst (snd (sendRequest h1_down_net ''https://target:443'' ''/'' (CircuitBreaker 15 8000 5)
      [Str ''h1.1'', Str ''h2''] (world_at 0)))) = 0 \<and>
   attempted (snd (snd (sendRequest h1_down_net ''https://target:443'' ''/'' (CircuitBreaker 15 8000 5)
      [Str ''h1.1'', Str ''h2''] (world_at 0)))) = [Str ''h1.1'', Str ''h2'']"
  by (simp add: sendRequest_def execute_def execute_gate_def execute_rejected_def execute_resolved_def
        attempt_def h1_down_net_def CircuitBreaker_def world_at_def last_protocol_def Let_def
        record_success_def initial_stats_def)

text \<open>
  C4. The list \<open>[h1.1, h2, h1.1]\<close> (the override \<^verbatim>\<open>-p 1.1,2,1.1\<close>) against a target whose
  HTTP/1.1 connections are reset and whose HTTP/2 answers 200. The first attempt fails; the
  handler compares the protocol with the last element of the list by value, finds them equal,
  records a run-level failure and rethrows. \<open>h2\<close> is never attempted, although a dispatch over
  \<open>[h2]\<close> alone succeeds, and the dispatcher of the specification returns the answer of \<open>h2\<close>
  for the same list. (Where the last protocol occurs nowhere earlier in the list, the two
  dispatchers agree: \<open>sendRequest_follows_spec_without_repetition\<close>.)
\<close>

theorem sendRequest_stops_at_repeated_last_protocol:
  "fst (sendRequest h1_down_net ''https://target:443'' ''/'' (CircuitBreaker 15 8000 5)
      [Str ''h1.1'', Str ''h2'', Str ''h1.1''] (world_at 0)) =
     Inl (Error (StrCode ''ECONNRESET'') (Some ''read ECONNRESET'')) \<and>
   attempted (snd (snd (sendRequest h1_down_net ''https://target:443'' ''/'' (CircuitBreaker 15 8000 5)
      [Str ''h1.1'', Str ''h2'', Str ''h1.1''] (world_at 0)))) = [Str ''h1.1''] \<and>
   failed (stats (snd (snd (sendRequest h1_down_net ''https://target:443'' ''/'' (CircuitBreaker 15 8000 5)
      [Str ''h1.1'', Str ''h2'', Str ''h1.1''] (world_at 0))))) = 1 \<and>
   fst (sendRequest h1_down_net ''https://target:443'' ''/'' (CircuitBreaker 15 8000 5)
      [Str ''h2''] (world_at 0)) =
     Inr (Some \<lparr> statusCode = 200, latency = 40, proto = Str ''h2'' \<rparr>) \<and>
   fst (spec_dispatch h1_down_net ''https://target:443'' ''/''
      [Str ''h1.1'', Str ''h2'', Str ''h1.1''] (CircuitBreaker 15 8000 5) (world_at 0)) =
     Inr (Some \<lparr> statusCode = 200, latency = 40, proto = Str ''h2'' \<rparr>)"
  by (simp add: sendRequest_def execute_def execute_gate_def execute_rejected_def execute_resolved_def
        attempt_def h1_down_net_def CircuitBreaker_def world_at_def last_protocol_def Let_def
        record_failure_def initial_stats_def)

section \<open>Statistics of a dispatch\<close>

lemma attempt_failure_keeps_stats:
  "attempt net url path p w = (Inl err, w') \<Longrightarrow> stats w' = stats w"
  by (auto simp: attempt_def Let_def split: net_outcome.splits)

lemma attempt_failure_world:
  "attempt net url path p w = (Inl err, w') \<Longrightarrow>
   w' = w\<lparr> clock := clock w + wall_ms (net url path p (created w)), created := Suc (created w),
          open_clients := created w # open_clients w, attempted := attempted w @ [p] \<rparr>"
  by (auto simp: attempt_def Let_def split: net_outcome.splits)

lemma execute_attempt_failure_keeps_stats:
  assumes "execute b (attempt net url path p) w = (Inl err, b', w')"
  shows "stats w' = stats w"
proof (cases "execute_gate b (clock w)")
  case (Inl e)
  with assms show ?thesis by (simp add: execute_def)
next
  case (Inr b1)
  obtain r w1 where a: "attempt net url path p w = (r, w1)" by (cases "attempt net url path p w")
  with assms Inr have "r = Inl err" "w' = w1" by (auto simp: execute_def split: sum.splits)
  with a show ?thesis using attempt_failure_keeps_stats by blast
qed

lemma sendRequest_loop_failure:
  "sendRequest_loop net url path protos rest b w = (Inl err, b', w') \<Longrightarrow>
   stats w' = record_failure (stats w) err"
proof (induction rest arbitrary: b w)
  case Nil
  then show ?case by simp
next
  case (Cons p rest)
  obtain r b1 w1 where e: "execute b (attempt net url path p) w = (r, b1, w1)"
    by (cases "execute b (attempt net url path p) w")
  show ?case
  proof (cases r)
    case (Inr res)
    with Cons.prems e show ?thesis by simp
  next
    case (Inl e1)
    have keep: "stats w1 = stats w"
      using execute_attempt_failure_keeps_stats e Inl by blast
    show ?thesis
    proof (cases "p = last_protocol protos")
      case True
      with Cons.prems e Inl keep show ?thesis by auto
    next
      case False
      with Cons.prems e Inl have "sendRequest_loop net url path protos rest b1 w1 = (Inl err, b', w')"
        by simp
      then have "stats w' = record_failure (stats w1) err" by (rule Cons.IH)
      with keep show ?thesis by simp
    qed
  qed
qed

lemma sendRequest_loop_circuit_open:
  "state b = OPEN \<Longrightarrow> clock w < nextAttempt b \<Longrightarrow> rest \<noteq> [] \<Longrightarrow>
   last rest = last_protocol protos \<Longrightarrow>
   sendRequest_loop net url path protos rest b w =
     (Inl circuit_open_error, b, w\<lparr> stats := record_failure (stats w) circuit_open_error \<rparr>)"
proof (induction rest)
  case Nil
  then show ?case by simp
next
  case (Cons p rest)
  have rej: "execute b (attempt net url path p) w = (Inl circuit_open_error, b, w)"
    using Cons.prems(1,2) by (simp add: execute_open_rejects)
  show ?case
  proof (cases "p = last_protocol protos")
    case True
    with rej show ?thesis by simp
  next
    case False
    with Cons.prems(4) have ne: "rest \<noteq> []" by auto
    with Cons.prems(4) have "last rest = last_protocol protos" by simp
    with Cons.IH Cons.prems(1,2) ne
    have "sendRequest_loop net url path protos rest b w =
       (Inl circuit_open_error, b, w\<lparr> stats := record_failure (stats w) circuit_open_error \<rparr>)"
      by blast
    with rej False show ?thesis by simp
  qed
qed

lemma sendRequest_circuit_open:
  assumes "state b = OPEN" and "clock w < nextAttempt b" and "protos \<noteq> []"
  shows "sendRequest net url path b protos w =
     (Inl circuit_open_error, b, w\<lparr> stats := record_failure (stats w) circuit_open_error \<rparr>)"
  unfolding sendRequest_def
  using assms by (intro sendRequest_loop_circuit_open) (simp_all add: last_protocol_def)

lemma error_key_circuit_open: "error_key circuit_open_error = ''Circuit OPEN - Waiti''"
  by (simp add: error_key_def circuit_open_error_def)

text \<open>At a key that names no member of \<^verbatim>\<open>Object.prototype\<close> and holds a count or nothing,
  \<^verbatim>\<open>t[k] = (t[k] || 0) + 1\<close> raises the count by one and touches no other key.\<close>

lemma table_increment_ordinary:
  assumes "k \<notin> set object_prototype_keys" and "count_valued t k"
  shows "table_increment t k = t(k := Some (Count (count_at t k + 1)))"
proof -
  from assms(1) have np: "k \<noteq> ''__proto__''" by (auto simp: object_prototype_keys_def)
  show ?thesis
  proof (cases "t k")
    case None
    with assms(1) np show ?thesis
      by (simp add: table_increment_def table_set_def table_get_def count_at_def)
  next
    case (Some v)
    with assms(2) obtain n where "v = Count n" by (cases v) (simp_all add: count_valued_def)
    with Some np show ?thesis
      by (simp add: table_increment_def table_set_def table_get_def count_at_def)
  qed
qed

lemma count_at_table_increment:
  "k \<notin> set object_prototype_keys \<Longrightarrow> count_valued t k \<Longrightarrow>
   count_at (table_increment t k) k = count_at t k + 1"
  by (simp add: table_increment_ordinary) (simp add: count_at_def)

lemma table_increment_other: "k' \<noteq> k \<Longrightarrow> table_increment t k k' = t k'"
  by (simp add: table_increment_def table_set_def)

text \<open>Entries at ordinary keys stay counts: the table starts empty, and neither a failure
  record nor a dispatch nor an attack pass turns one into a string.\<close>

lemma initial_errors_count_valued: "count_valued (errors initial_stats) k"
  by (simp add: initial_stats_def count_valued_def)

lemma table_increment_keeps_counts:
  assumes "k' \<notin> set object_prototype_keys" and "count_valued t k'"
  shows "count_valued (table_increment t k) k'"
proof (cases "k' = k")
  case True
  with assms show ?thesis by (simp add: table_increment_ordinary) (simp add: count_valued_def)
next
  case False
  with assms(2) show ?thesis by (simp add: count_valued_def table_increment_other)
qed

lemma attempt_keeps_errors: "errors (stats (snd (attempt net url path p w))) = errors (stats w)"
  by (cases "outcome (net url path p (created w))")
     (simp_all add: attempt_def Let_def record_success_def)

lemma execute_attempt_keeps_errors:
  "errors (stats (snd (snd (execute b (attempt net url path p) w)))) = errors (stats w)"
proof (cases "execute_gate b (clock w)")
  case (Inl e)
  then show ?thesis by (simp add: execute_def)
next
  case (Inr b1)
  obtain r w1 where a: "attempt net url path p w = (r, w1)" by (cases "attempt net url path p w")
  have "errors (stats w1) = errors (stats w)" using attempt_keeps_errors [of net url path p w] a by simp
  with Inr a show ?thesis by (cases r) (simp_all add: execute_def)
qed

lemma sendRequest_loop_keeps_counts:
  "k \<notin> set object_prototype_keys \<Longrightarrow> count_valued (errors (stats w)) k \<Longrightarrow>
   count_valued (errors (stats (snd (snd (sendRequest_loop net url path protos rest b w))))) k"
proof (induction rest arbitrary: b w)
  case Nil
  then show ?case by simp
next
  case (Cons p rest)
  obtain r b1 w1 where e: "execute b (attempt net url path p) w = (r, b1, w1)"
    by (cases "execute b (attempt net url path p) w")
  have same: "errors (stats w1) = errors (stats w)"
    using execute_attempt_keeps_errors [of b net url path p w] e by simp
  with Cons.prems have cv: "count_valued (errors (stats w1)) k" by simp
  show ?case
  proof (cases r)
    case (Inr res)
    with e cv show ?thesis by simp
  next
    case (Inl err)
    show ?thesis
    proof (cases "p = last_protocol protos")
      case True
      have "count_valued (table_increment (errors (stats w1)) (error_key err)) k"
        using Cons.prems(1) cv by (rule table_increment_keeps_counts)
      with e Inl True show ?thesis by (simp add: record_failure_def)
    next
      case False
      have "count_valued (errors (stats (snd (snd (sendRequest_loop net url path protos rest b1 w1))))) k"
        using Cons.prems(1) cv by (rule Cons.IH)
      with e Inl False show ?thesis by simp
    qed
  qed
qed

lemma attack_round_keeps_errors: "errors (stats (attack_round r w)) = errors (stats w)"
proof (cases "connect r")
  case (Connected events)
  have "errors (foldl on_stream_event s events) = errors s" for s
  proof (induction events arbitrary: s)
    case Nil
    show ?case by simp
  next
    case (Cons ev events)
    then show ?case by (cases ev) simp_all
  qed
  with Connected show ?thesis by (simp add: attack_round_def Let_def)
next
  case (ConnectFailed err)
  then show ?thesis by (simp add: attack_round_def Let_def)
qed

lemma run_keeps_counts:
  "k \<notin> set object_prototype_keys \<Longrightarrow> count_valued (errors (stats (snd bw))) k \<Longrightarrow>
   count_valued (errors (stats (snd (run ops bw)))) k"
  unfolding run_def
proof (induction ops arbitrary: bw)
  case Nil
  then show ?case by simp
next
  case (Cons op ops)
  obtain b w where bw: "bw = (b, w)" by (cases bw)
  have "count_valued (errors (stats (snd (run_step bw op)))) k"
  proof (cases op)
    case (Dispatch net url path protos)
    with bw Cons.prems show ?thesis
      using sendRequest_loop_keeps_counts [of k w net url path protos protos b]
      by (simp add: sendRequest_def)
  next
    case (AttackRound r)
    with bw Cons.prems show ?thesis by (simp add: attack_round_keeps_errors)
  qed
  with Cons.prems(1) have "count_valued (errors (stats (snd (foldl run_step (run_step bw op) ops)))) k"
    by (rule Cons.IH)
  then show ?case by simp
qed

text \<open>At a key that names a member of \<^verbatim>\<open>Object.prototype\<close> the statement of lines 216--217
  stores no count: the inherited function is truthy, \<^verbatim>\<open>+ 1\<close> appends to its source text,
  and the setter of \<^verbatim>\<open>__proto__\<close> drops the value. No error of Node, undici or the
  breaker has such a code or message.\<close>

lemma record_failure_at_inherited_key:
  "errors (record_failure initial_stats (Error (StrCode ''constructor'') None)) ''constructor'' =
     Some (Text ''function Object() { [native code] }1'') \<and>
   errors (record_failure initial_stats (Error NoCode (Some ''__proto__''))) = errors initial_stats"
  by (simp add: record_failure_def error_key_def table_increment_def table_set_def table_get_def
        initial_stats_def object_prototype_keys_def inherited_to_string_def)

text \<open>
  C5. Whenever \<^verbatim>\<open>sendRequest\<close> throws, the statistics it leaves are those it found with
  exactly one failure recorded: \<open>failed\<close> is one higher, the success counter is untouched, and
  the statement \<^verbatim>\<open>errors[key] = (errors[key] || 0) + 1\<close> ran once, at the key of the thrown
  error. Where that key names no member of \<^verbatim>\<open>Object.prototype\<close> and the table holds a count
  or nothing at it (as it does at every such key in every run: \<open>run_keeps_counts\<close>), the
  count at the key is one higher and no other entry changed. The final iteration of the loop
  throws whenever its attempt fails. The key is the error's code when that is truthy, else the
  first 20 characters of a non-empty message, else \<open>UNKNOWN\<close>. On an OPEN breaker whose
  \<open>nextAttempt\<close> lies ahead, a dispatch over a non-empty list throws the circuit-open error and
  records it under the first 20 characters of its message, raising that count by one,
  although no client was constructed and the breaker is unchanged.
\<close>

theorem final_failure_recorded_once:
  "(sendRequest net url path b protos w = (Inl err, b', w') \<longrightarrow>
      stats w' = record_failure (stats w) err \<and>
      failed (stats w') = failed (stats w) + 1 \<and>
      success (stats w') = success (stats w) \<and>
      errors (stats w') = table_increment (errors (stats w)) (error_key err)) \<and>
   (sendRequest net url path b protos w = (Inl err, b', w') \<and>
    error_key err \<notin> set object_prototype_keys \<and> count_valued (errors (stats w)) (error_key err) \<longrightarrow>
      errors (stats w') =
        (errors (stats w))(error_key err := Some (Count (count_at (errors (stats w)) (error_key err) + 1))) \<and>
      count_at (errors (stats w')) (error_key err) = count_at (errors (stats w)) (error_key err) + 1) \<and>
   (protos \<noteq> [] \<and> execute b (attempt net url path (last protos)) w = (Inl err, b', w') \<longrightarrow>
      sendRequest_loop net url path protos [last protos] b w =
        (Inl err, b', w'\<lparr> stats := record_failure (stats w) err \<rparr>)) \<and>
   (code_truthy (code err) \<longrightarrow> error_key err = code_to_key (code err)) \<and>
   (\<not> code_truthy (code err) \<and> message err = Some m \<and> m \<noteq> [] \<longrightarrow> error_key err = take 20 m) \<and>
   (\<not> code_truthy (code err) \<and> (message err = None \<or> message err = Some []) \<longrightarrow>
      error_key err = ''UNKNOWN'') \<and>
   (state b = OPEN \<and> clock w < nextAttempt b \<and> protos \<noteq> [] \<longrightarrow>
      sendRequest net url path b protos w =
        (Inl circuit_open_error, b, w\<lparr> stats := record_failure (stats w) circuit_open_error \<rparr>) \<and>
      error_key circuit_open_error = ''Circuit OPEN - Waiti'' \<and>
      created (snd (snd (sendRequest net url path b protos w))) = created w \<and>
      attempted (snd (snd (sendRequest net url path b protos w))) = attempted w) \<and>
   (state b = OPEN \<and> clock w < nextAttempt b \<and> protos \<noteq> [] \<and>
    count_valued (errors (stats w)) ''Circuit OPEN - Waiti'' \<longrightarrow>
      count_at (errors (stats (snd (snd (sendRequest net url path b protos w))))) ''Circuit OPEN - Waiti'' =
        count_at (errors (stats w)) ''Circuit OPEN - Waiti'' + 1)"
proof (intro conjI impI; (elim conjE)?)
  {
    assume t: "sendRequest net url path b protos w = (Inl err, b', w')"
    then show s: "stats w' = record_failure (stats w) err"
      unfolding sendRequest_def by (rule sendRequest_loop_failure)
    show "failed (stats w') = failed (stats w) + 1" by (simp add: s record_failure_def)
    show "success (stats w') = success (stats w)" by (simp add: s record_failure_def)
    show "errors (stats w') = table_increment (errors (stats w)) (error_key err)"
      by (simp add: s record_failure_def)
  }
  {
    assume t: "sendRequest net url path b protos w = (Inl err, b', w')"
      and k: "error_key err \<notin> set object_prototype_keys"
      and c: "count_valued (errors (stats w)) (error_key err)"
    from t have s: "stats w' = record_failure (stats w) err"
      unfolding sendRequest_def by (rule sendRequest_loop_failure)
    then have e: "errors (stats w') = table_increment (errors (stats w)) (error_key err)"
      by (simp add: record_failure_def)
    show "errors (stats w') =
        (errors (stats w))(error_key err := Some (Count (count_at (errors (stats w)) (error_key err) + 1)))"
      using e table_increment_ordinary [OF k c] by simp
    show "count_at (errors (stats w')) (error_key err) = count_at (errors (stats w)) (error_key err) + 1"
      using e count_at_table_increment [OF k c] by simp
  }
  {
    assume ne: "protos \<noteq> []"
      and e: "execute b (attempt net url path (last protos)) w = (Inl err, b', w')"
    have "stats w' = stats w" using execute_attempt_failure_keeps_stats e by blast
    then show "sendRequest_loop net url path protos [last protos] b w =
        (Inl err, b', w'\<lparr> stats := record_failure (stats w) err \<rparr>)"
      using ne e by (simp add: last_protocol_def)
  }
  {
    assume "code_truthy (code err)"
    then show "error_key err = code_to_key (code err)" by (simp add: error_key_def)
  }
  {
    assume "\<not> code_truthy (code err)" "message err = Some m" "m \<noteq> []"
    then show "error_key err = take 20 m" by (simp add: error_key_def)
  }
  {
    assume "\<not> code_truthy (code err)" "message err = None \<or> message err = Some []"
    then show "error_key err = ''UNKNOWN''" by (auto simp: error_key_def)
  }
  {
    assume h: "state b = OPEN" "clock w < nextAttempt b" "protos \<noteq> []"
    note r = sendRequest_circuit_open [OF h]
    show "sendRequest net url path b protos w =
        (Inl circuit_open_error, b, w\<lparr> stats := record_failure (stats w) circuit_open_error \<rparr>)"
      by (rule r)
    show "error_key circuit_open_error = ''Circuit OPEN - Waiti''" by (rule error_key_circuit_open)
    show "created (snd (snd (sendRequest net url path b protos w))) = created w" by (simp add: r)
    show "attempted (snd (snd (sendRequest net url path b protos w))) = attempted w" by (simp add: r)
  }
  {
    assume h: "state b = OPEN" "clock w < nextAttempt b" "protos \<noteq> []"
      and c: "count_valued (errors (stats w)) ''Circuit OPEN - Waiti''"
    note r = sendRequest_circuit_open [OF h]
    have k: "''Circuit OPEN - Waiti'' \<notin> set object_prototype_keys"
      by (simp add: object_prototype_keys_def)
    have "errors (stats (snd (snd (sendRequest net url path b protos w)))) =
        table_increment (errors (stats w)) ''Circuit OPEN - Waiti''"
      by (simp add: r record_failure_def error_key_circuit_open)
    then show "count_at (errors (stats (snd (snd (sendRequest net url path b protos w))))) ''Circuit OPEN - Waiti'' =
        count_at (errors (stats w)) ''Circuit OPEN - Waiti'' + 1"
      using count_at_table_increment [OF k c] by simp
  }
qed

lemma timeout_dispatch_throws:
  "fst (sendRequest timeout_net ''https://target:443'' ''/'' (CircuitBreaker 15 8000 5)
        [Str ''h2'', Str ''h1.1''] (world_at 0)) =
     Inl (Error (NumCode 23) (Some ''The operation was aborted due to timeout''))"
  by (simp add: sendRequest_def execute_def execute_gate_def execute_rejected_def attempt_def
        timeout_net_def CircuitBreaker_def world_at_def last_protocol_def Let_def)

theorem final_failure_recorded_once_witness:
  "fst (sendRequest timeout_net ''https://target:443'' ''/'' (CircuitBreaker 15 8000 5)
        [Str ''h2'', Str ''h1.1''] (world_at 0)) =
     Inl (Error (NumCode 23) (Some ''The operation was aborted due to timeout'')) \<and>
   failed (stats (snd (snd (sendRequest timeout_net ''https://target:443'' ''/'' (CircuitBreaker 15 8000 5)
        [Str ''h2'', Str ''h1.1''] (world_at 0))))) = 1 \<and>
   count_at (errors (stats (snd (snd (sendRequest timeout_net ''https://target:443'' ''/''
        (CircuitBreaker 15 8000 5) [Str ''h2'', Str ''h1.1''] (world_at 0)))))) ''23'' = 1 \<and>
   error_key (Error (StrCode ''ECONNRESET'') (Some ''read ECONNRESET'')) = ''ECONNRESET'' \<and>
   error_key (Error NoCode (Some ''Circuit OPEN - Waiting for reconnect'')) = ''Circuit OPEN - Waiti'' \<and>
   error_key (Error NoCode None) = ''UNKNOWN'' \<and>
   fst (sendRequest timeout_net ''https://target:443'' ''/''
        ((CircuitBreaker 15 8000 5)\<lparr> failCount := 15, state := OPEN, nextAttempt := 9000 \<rparr>)
        [Str ''h2'', Str ''h1.1''] (world_at 1000)) = Inl circuit_open_error \<and>
   failed (stats (snd (snd (sendRequest timeout_net ''https://target:443'' ''/''
        ((CircuitBreaker 15 8000 5)\<lparr> failCount := 15, state := OPEN, nextAttempt := 9000 \<rparr>)
        [Str ''h2'', Str ''h1.1''] (world_at 1000))))) = 1 \<and>
   count_at (errors (stats (snd (snd (sendRequest timeout_net ''https://target:443'' ''/''
        ((CircuitBreaker 15 8000 5)\<lparr> failCount := 15, state := OPEN, nextAttempt := 9000 \<rparr>)
        [Str ''h2'', Str ''h1.1''] (world_at 1000)))))) ''Circuit OPEN - Waiti'' = 1 \<and>
   created (snd (snd (sendRequest timeout_net ''https://target:443'' ''/''
        ((CircuitBreaker 15 8000 5)\<lparr> failCount := 15, state := OPEN, nextAttempt := 9000 \<rparr>)
        [Str ''h2'', Str ''h1.1''] (world_at 1000)))) = 0"
proof -
  let ?u = "''https://target:443''"
  let ?ps = "[Str ''h2'', Str ''h1.1'']"
  let ?e = "Error (NumCode 23) (Some ''The operation was aborted due to timeout'')"
  let ?X = "sendRequest timeout_net ?u ''/'' (CircuitBreaker 15 8000 5) ?ps (world_at 0)"
  let ?o = "(CircuitBreaker 15 8000 5)\<lparr> failCount := 15, state := OPEN, nextAttempt := 9000 \<rparr>"
  let ?Y = "sendRequest timeout_net ?u ''/'' ?o ?ps (world_at 1000)"
  have c1: "fst ?X = Inl ?e" by (rule timeout_dispatch_throws)
  then have x: "?X = (Inl ?e, fst (snd ?X), snd (snd ?X))" by (metis prod.collapse)
  note t = final_failure_recorded_once [where net = timeout_net and url = ?u and path = "''/''"
      and b = "CircuitBreaker 15 8000 5" and protos = ?ps and w = "world_at 0" and err = ?e
      and b' = "fst (snd ?X)" and w' = "snd (snd ?X)" and m = "''m''"]
  from t x have "failed (stats (snd (snd ?X))) = failed (stats (world_at 0)) + 1" by blast
  then have c2: "failed (stats (snd (snd ?X))) = 1" by (simp add: world_at_def initial_stats_def)
  have key: "error_key ?e = ''23''" by (simp add: error_key_def int_to_string_def digit_char_def)
  have ord: "error_key ?e \<notin> set object_prototype_keys"
    by (simp only: key) (simp add: object_prototype_keys_def)
  have cv: "count_valued (errors (stats (world_at 0))) (error_key ?e)"
    by (simp add: world_at_def initial_errors_count_valued)
  from t x ord cv have "count_at (errors (stats (snd (snd ?X)))) (error_key ?e) =
      count_at (errors (stats (world_at 0))) (error_key ?e) + 1" by blast
  then have c3: "count_at (errors (stats (snd (snd ?X)))) ''23'' = 1"
    by (simp only: key) (simp add: world_at_def initial_stats_def count_at_def)
  note k1 = final_failure_recorded_once [where err = "Error (StrCode ''ECONNRESET'') (Some ''read ECONNRESET'')"
      and net = timeout_net and url = ?u and path = "''/''" and b = ?o and protos = ?ps
      and w = "world_at 1000" and b' = ?o and w' = "world_at 1000" and m = "''m''"]
  have "code_truthy (code (Error (StrCode ''ECONNRESET'') (Some ''read ECONNRESET'')))" by simp
  with k1 have "error_key (Error (StrCode ''ECONNRESET'') (Some ''read ECONNRESET'')) =
      code_to_key (code (Error (StrCode ''ECONNRESET'') (Some ''read ECONNRESET'')))" by blast
  then have c4: "error_key (Error (StrCode ''ECONNRESET'') (Some ''read ECONNRESET'')) = ''ECONNRESET''"
    by simp
  note k2 = final_failure_recorded_once [where err = "Error NoCode (Some ''Circuit OPEN - Waiting for reconnect'')"
      and m = "''Circuit OPEN - Waiting for reconnect''"
      and net = timeout_net and url = ?u and path = "''/''" and b = ?o and protos = ?ps
      and w = "world_at 1000" and b' = ?o and w' = "world_at 1000"]
  have "\<not> code_truthy (code (Error NoCode (Some ''Circuit OPEN - Waiting for reconnect''))) \<and>
      message (Error NoCode (Some ''Circuit OPEN - Waiting for reconnect'')) =
        Some ''Circuit OPEN - Waiting for reconnect'' \<and> ''Circuit OPEN - Waiting for reconnect'' \<noteq> []"
    by simp
  with k2 have "error_key (Error NoCode (Some ''Circuit OPEN - Waiting for reconnect'')) =
      take 20 ''Circuit OPEN - Waiting for reconnect''" by blast
  then have c5: "error_key (Error NoCode (Some ''Circuit OPEN - Waiting for reconnect'')) =
      ''Circuit OPEN - Waiti''" by simp
  note k3 = final_failure_recorded_once [where err = "Error NoCode None" and m = "''m''"
      and net = timeout_net and url = ?u and path = "''/''" and b = ?o and protos = ?ps
      and w = "world_at 1000" and b' = ?o and w' = "world_at 1000"]
  have "\<not> code_truthy (code (Error NoCode None)) \<and>
      (message (Error NoCode None) = None \<or> message (Error NoCode None) = Some [])" by simp
  with k3 have c6: "error_key (Error NoCode None) = ''UNKNOWN''" by blast
  have o: "state ?o = OPEN \<and> clock (world_at 1000) < nextAttempt ?o \<and> ?ps \<noteq> []"
    by (simp add: CircuitBreaker_def world_at_def)
  from k3 o have y: "?Y = (Inl circuit_open_error, ?o,
      (world_at 1000)\<lparr> stats := record_failure (stats (world_at 1000)) circuit_open_error \<rparr>)"
    by blast
  have c7: "fst ?Y = Inl circuit_open_error" by (simp only: y fst_conv)
  have c8: "failed (stats (snd (snd ?Y))) = 1"
    by (simp only: y snd_conv) (simp add: record_failure_def world_at_def initial_stats_def)
  have cvo: "count_valued (errors (stats (world_at 1000))) ''Circuit OPEN - Waiti''"
    by (simp add: world_at_def initial_errors_count_valued)
  from k3 o cvo have "count_at (errors (stats (snd (snd ?Y)))) ''Circuit OPEN - Waiti'' =
      count_at (errors (stats (world_at 1000))) ''Circuit OPEN - Waiti'' + 1" by blast
  then have c9: "count_at (errors (stats (snd (snd ?Y)))) ''Circuit OPEN - Waiti'' = 1"
    by (simp add: world_at_def initial_stats_def count_at_def)
  from k3 o have "created (snd (snd ?Y)) = created (world_at 1000)" by blast
  then have c10: "created (snd (snd ?Y)) = 0" by (simp add: world_at_def)
  show ?thesis using c1 c2 c3 c4 c5 c6 c7 c8 c9 c10 by blast
qed

section \<open>Transport handles\<close>

lemma attempt_open_clients:
  "open_clients (snd (attempt net url path p w)) =
     (case outcome (net url path p (created w)) of
        Completed sc \<Rightarrow> open_clients w
      | Rejected err \<Rightarrow> created w # open_clients w
      | BodyFailed sc err \<Rightarrow> created w # open_clients w)"
  by (cases "outcome (net url path p (created w))") (simp_all add: attempt_def Let_def)

lemma attack_round_open_clients: "open_clients (attack_round r w) = open_clients w"
  by (cases "connect r") (simp_all add: attack_round_def Let_def)

text \<open>
  C6. An attempt over \<open>h2\<close> against a target on which the request is aborted by the 8 s
  signal: the attempt throws, and the client it constructed (number 0) is still open
  afterwards, because \<^verbatim>\<open>client.close()\<close> stands after the request and the body loop inside
  the same block and there is no \<^verbatim>\<open>finally\<close>. The successful attempt against the other
  target closes its client. (\<^verbatim>\<open>rapidResetAttack\<close> destroys its session in a \<^verbatim>\<open>finally\<close>
  block: \<open>attack_round_open_clients\<close>.)
\<close>

theorem attempt_leaves_client_open_on_failure:
  "fst (attempt timeout_net ''https://target:443'' ''/'' (Str ''h2'') (world_at 0)) =
     Inl (Error (NumCode 23) (Some ''The operation was aborted due to timeout'')) \<and>
   open_clients (snd (attempt timeout_net ''https://target:443'' ''/'' (Str ''h2'') (world_at 0))) = [0] \<and>
   open_clients (snd (attempt h1_down_net ''https://target:443'' ''/'' (Str ''h2'') (world_at 0))) = []"
  by (simp add: attempt_def timeout_net_def h1_down_net_def world_at_def Let_def)

section \<open>The protocol probe\<close>

lemma detectProtocols_responded:
  "detectProtocols (Responded hs closing) =
     Inr (if advertises_h3 hs then [Str ''h3'', Str ''h2'', Str ''h1.1'']
          else [Str ''h2'', Str ''h1.1''])"
  by (cases closing) (simp_all add: detectProtocols_def detect_try_def set_add_def Let_def)

text \<open>\<^verbatim>\<open>String.prototype.includes\<close> is the test for a contiguous occurrence.\<close>

lemma starts_with_iff: "starts_with s t = (\<exists>suf. s = t @ suf)"
  by (induction s t rule: starts_with.induct) auto

lemma str_includes_iff: "str_includes s t = (\<exists>pre suf. s = pre @ t @ suf)"
proof (induction s)
  case Nil
  show ?case by auto
next
  case (Cons a s)
  show ?case
  proof
    assume "str_includes (a # s) t"
    then consider "starts_with (a # s) t" | "str_includes s t" by auto
    then show "\<exists>pre suf. a # s = pre @ t @ suf"
    proof cases
      case 1
      then obtain suf where "a # s = t @ suf" by (auto simp: starts_with_iff)
      then have "a # s = [] @ t @ suf" by simp
      then show ?thesis by blast
    next
      case 2
      with Cons.IH obtain pre suf where "s = pre @ t @ suf" by auto
      then have "a # s = (a # pre) @ t @ suf" by simp
      then show ?thesis by blast
    qed
  next
    assume "\<exists>pre suf. a # s = pre @ t @ suf"
    then obtain pre suf where e: "a # s = pre @ t @ suf" by blast
    show "str_includes (a # s) t"
    proof (cases pre)
      case Nil
      with e have "starts_with (a # s) t" by (auto simp: starts_with_iff)
      then show ?thesis by simp
    next
      case (Cons x pre')
      with e have "s = pre' @ t @ suf" by simp
      with Cons.IH have "str_includes s t" by blast
      then show ?thesis by simp
    qed
  qed
qed

text \<open>
  C7 as stated does not hold. A response with two \<^verbatim>\<open>alt-svc\<close> lines, the first offering
  \<open>h3\<close>, advertises HTTP/3, but its header value is an array, on which \<^verbatim>\<open>includes('h3')\<close>
  asks for an element equal to \<open>h3\<close>: the probe returns \<open>[h2, h1.1]\<close>. A response whose only
  alternative is \<open>h2\<close> on a host named \<open>alth3.example.net\<close> does not advertise HTTP/3, but
  its header value contains the letters h3: the probe returns \<open>[h3, h2, h1.1]\<close>.
\<close>

theorem detectProtocols_h3_signal_counterexample:
  "spec_advertises_h3 repeated_alt_svc \<and>
   detectProtocols (Responded repeated_alt_svc None) = Inr [Str ''h2'', Str ''h1.1''] \<and>
   \<not> spec_advertises_h3 lookalike_alt_svc \<and>
   detectProtocols (Responded lookalike_alt_svc None) = Inr [Str ''h3'', Str ''h2'', Str ''h1.1'']"
  by (simp add: spec_advertises_h3_def repeated_alt_svc_def lookalike_alt_svc_def alt_protocol_id_def
        trim_def is_space_def js_white_space_def detectProtocols_def detect_try_def advertises_h3_def
        set_add_def Let_def)

text \<open>
  C7, amended. \<^verbatim>\<open>detectProtocols\<close> never throws: its result is always a list. When the
  client constructor throws or the request rejects (timeout, refused connection, TLS
  failure), the list is exactly \<open>[h1.1]\<close>. When the request resolved, the list contains \<open>h2\<close>
  and \<open>h1.1\<close>, whether or not closing the client fails afterwards; without an \<^verbatim>\<open>alt-svc\<close>
  header it is \<open>[h2, h1.1]\<close>, and with a single \<^verbatim>\<open>alt-svc\<close> header line it contains \<open>h3\<close>
  exactly when the text h3 occurs somewhere in that line's value. Nothing is stated for a
  repeated \<^verbatim>\<open>alt-svc\<close> header.
\<close>

theorem detectProtocols_never_throws:
  "(\<exists>ps. detectProtocols pr = Inr ps) \<and>
   detectProtocols (ClientThrows err) = Inr [Str ''h1.1''] \<and>
   detectProtocols (RequestRejected err) = Inr [Str ''h1.1''] \<and>
   (\<exists>ps. detectProtocols (Responded hs closing) = Inr ps \<and>
      Str ''h2'' \<in> set ps \<and> Str ''h1.1'' \<in> set ps) \<and>
   (hs ''alt-svc'' = None \<longrightarrow>
      detectProtocols (Responded hs closing) = Inr [Str ''h2'', Str ''h1.1'']) \<and>
   (hs ''alt-svc'' = Some (Single s) \<longrightarrow>
      (\<exists>ps. detectProtocols (Responded hs closing) = Inr ps \<and>
         (Str ''h3'' \<in> set ps) = (\<exists>pre suf. s = pre @ ''h3'' @ suf)) \<and>
      detectProtocols (Responded hs closing) =
        Inr (if \<exists>pre suf. s = pre @ ''h3'' @ suf then [Str ''h3'', Str ''h2'', Str ''h1.1'']
             else [Str ''h2'', Str ''h1.1'']))"
proof -
  have total: "\<exists>ps. detectProtocols pr = Inr ps"
    by (cases "detect_try pr []") (auto simp: detectProtocols_def split: sum.splits)
  have thrown: "detectProtocols (ClientThrows err) = Inr [Str ''h1.1'']"
    by (simp add: detectProtocols_def detect_try_def set_add_def)
  have rejected: "detectProtocols (RequestRejected err) = Inr [Str ''h1.1'']"
    by (simp add: detectProtocols_def detect_try_def set_add_def)
  have members: "\<exists>ps. detectProtocols (Responded hs closing) = Inr ps \<and>
      Str ''h2'' \<in> set ps \<and> Str ''h1.1'' \<in> set ps"
    by (simp add: detectProtocols_responded)
  have absent: "hs ''alt-svc'' = None \<longrightarrow>
      detectProtocols (Responded hs closing) = Inr [Str ''h2'', Str ''h1.1'']"
    by (simp add: detectProtocols_responded advertises_h3_def)
  have single: "hs ''alt-svc'' = Some (Single s) \<longrightarrow>
      (\<exists>ps. detectProtocols (Responded hs closing) = Inr ps \<and>
         (Str ''h3'' \<in> set ps) = (\<exists>pre suf. s = pre @ ''h3'' @ suf)) \<and>
      detectProtocols (Responded hs closing) =
        Inr (if \<exists>pre suf. s = pre @ ''h3'' @ suf then [Str ''h3'', Str ''h2'', Str ''h1.1'']
             else [Str ''h2'', Str ''h1.1''])"
  proof
    assume h: "hs ''alt-svc'' = Some (Single s)"
    then have "advertises_h3 hs = (\<exists>pre suf. s = pre @ ''h3'' @ suf)"
      by (simp add: advertises_h3_def str_includes_iff)
    then show "(\<exists>ps. detectProtocols (Responded hs closing) = Inr ps \<and>
         (Str ''h3'' \<in> set ps) = (\<exists>pre suf. s = pre @ ''h3'' @ suf)) \<and>
      detectProtocols (Responded hs closing) =
        Inr (if \<exists>pre suf. s = pre @ ''h3'' @ suf then [Str ''h3'', Str ''h2'', Str ''h1.1'']
             else [Str ''h2'', Str ''h1.1''])"
      by (simp add: detectProtocols_responded)
  qed
  show ?thesis using total thrown rejected members absent single by blast
qed

theorem detectProtocols_never_throws_witness:
  "detectProtocols (Responded no_headers None) = Inr [Str ''h2'', Str ''h1.1''] \<and>
   detectProtocols (Responded single_alt_svc None) = Inr [Str ''h3'', Str ''h2'', Str ''h1.1''] \<and>
   detectProtocols (Responded lookalike_alt_svc None) = Inr [Str ''h3'', Str ''h2'', Str ''h1.1'']"
proof -
  note t0 = detectProtocols_never_throws [where hs = no_headers and closing = None
      and s = "''s''" and pr = "ClientThrows (Error NoCode None)" and err = "Error NoCode None"]
  have "no_headers ''alt-svc'' = None" by (simp add: no_headers_def)
  with t0 have c1: "detectProtocols (Responded no_headers None) = Inr [Str ''h2'', Str ''h1.1'']"
    by blast
  note t1 = detectProtocols_never_throws [where hs = single_alt_svc and closing = None
      and s = "''h3=\":443\"; ma=86400''" and pr = "ClientThrows (Error NoCode None)"
      and err = "Error NoCode None"]
  have h1: "single_alt_svc ''alt-svc'' = Some (Single ''h3=\":443\"; ma=86400'')"
    by (simp add: single_alt_svc_def)
  have "''h3=\":443\"; ma=86400'' = [] @ ''h3'' @ ''=\":443\"; ma=86400''" by simp
  then have e1: "\<exists>pre suf. ''h3=\":443\"; ma=86400'' = pre @ ''h3'' @ suf" by blast
  from t1 h1 have "detectProtocols (Responded single_alt_svc None) =
      Inr (if \<exists>pre suf. ''h3=\":443\"; ma=86400'' = pre @ ''h3'' @ suf
           then [Str ''h3'', Str ''h2'', Str ''h1.1''] else [Str ''h2'', Str ''h1.1''])"
    by blast
  with e1 have c2: "detectProtocols (Responded single_alt_svc None) =
      Inr [Str ''h3'', Str ''h2'', Str ''h1.1'']" by simp
  note t2 = detectProtocols_never_throws [where hs = lookalike_alt_svc and closing = None
      and s = "''h2=\"alth3.example.net:443\"; ma=86400''" and pr = "ClientThrows (Error NoCode None)"
      and err = "Error NoCode None"]
  have h2: "lookalike_alt_svc ''alt-svc'' = Some (Single ''h2=\"alth3.example.net:443\"; ma=86400'')"
    by (simp add: lookalike_alt_svc_def)
  have "''h2=\"alth3.example.net:443\"; ma=86400'' = ''h2=\"alt'' @ ''h3'' @ ''.example.net:443\"; ma=86400''"
    by simp
  then have e2: "\<exists>pre suf. ''h2=\"alth3.example.net:443\"; ma=86400'' = pre @ ''h3'' @ suf" by blast
  from t2 h2 have "detectProtocols (Responded lookalike_alt_svc None) =
      Inr (if \<exists>pre suf. ''h2=\"alth3.example.net:443\"; ma=86400'' = pre @ ''h3'' @ suf
           then [Str ''h3'', Str ''h2'', Str ''h1.1''] else [Str ''h2'', Str ''h1.1''])"
    by blast
  with e2 have c3: "detectProtocols (Responded lookalike_alt_svc None) =
      Inr [Str ''h3'', Str ''h2'', Str ''h1.1'']" by simp
  show ?thesis using c1 c2 c3 by blast
qed

section \<open>The protocol override\<close>

lemma protocolMap_recognised:
  "protocolMap ''1.1'' = Str ''h1.1''" "protocolMap ''2'' = Str ''h2''" "protocolMap ''3'' = Str ''h3''"
  by (simp_all add: protocolMap_def)

lemma protocolMap_dropped:
  "truthy (protocolMap k) = (k = ''1.1'' \<or> k = ''2'' \<or> k = ''3'' \<or> k \<in> set object_prototype_keys)"
  by (simp add: protocolMap_def)

lemma main_protocols_default:
  "s \<noteq> [] \<Longrightarrow> forced_protocols s = [] \<Longrightarrow> main_protocols (Some s) pr = Inr [Str ''h1.1'']"
  by (simp add: main_protocols_def)

lemma forced_protocols_example:
  "forced_protocols ''1.1,2,3'' = [Str ''h1.1'', Str ''h2'', Str ''h3'']"
  by (simp add: forced_protocols_def trim_def is_space_def js_white_space_def protocolMap_def)

lemma forced_protocols_unknown_example:
  "forced_protocols ''2,quic, 3'' = [Str ''h2'', Str ''h3'']"
  by (simp add: forced_protocols_def trim_def is_space_def js_white_space_def protocolMap_def object_prototype_keys_def)

text \<open>
  C8. The override \<^verbatim>\<open>-p constructor\<close>: the token is none of \<open>1.1\<close>, \<open>2\<close>, \<open>3\<close>, yet
  \<^verbatim>\<open>protocolMap['constructor']\<close> is the inherited constructor function, which is truthy, so
  \<^verbatim>\<open>filter(Boolean)\<close> keeps it: the parsed list is not empty, and the run proceeds with that
  list instead of \<open>[h1.1]\<close>.
\<close>

theorem forced_protocols_keeps_inherited_member:
  "forced_protocols ''constructor'' = [Inherited ''constructor''] \<and>
   main_protocols (Some ''constructor'') (RequestRejected (Error NoCode None)) =
     Inr [Inherited ''constructor''] \<and>
   forced_protocols ''2,toString'' = [Str ''h2'', Inherited ''toString'']"
  by (simp add: main_protocols_def forced_protocols_def trim_def is_space_def js_white_space_def protocolMap_def
        object_prototype_keys_def)

section \<open>Statistics never move backwards\<close>

lemma min_le_refl: "min_le a a"
  by (cases a) simp_all

lemma min_le_trans: "min_le a b \<Longrightarrow> min_le b c \<Longrightarrow> min_le a c"
  by (cases a; cases b; cases c) simp_all

lemma stats_monotone_refl: "stats_monotone s s"
  by (simp add: stats_monotone_def min_le_refl)

lemma stats_monotone_trans:
  "stats_monotone s t \<Longrightarrow> stats_monotone t u \<Longrightarrow> stats_monotone s u"
  unfolding stats_monotone_def using min_le_trans by (meson order_trans)

lemma record_success_monotone: "stats_monotone s (record_success s sc lat p)"
  by (cases "minLatency s") (auto simp: stats_monotone_def record_success_def Let_def)

lemma record_failure_monotone: "stats_monotone s (record_failure s err)"
  by (simp add: stats_monotone_def record_failure_def min_le_refl)

lemma on_stream_event_monotone: "stats_monotone s (on_stream_event s ev)"
  by (cases ev) (simp_all add: stats_monotone_def min_le_refl)

lemma foldl_on_stream_event_monotone: "stats_monotone s (foldl on_stream_event s evs)"
proof (induction evs arbitrary: s)
  case Nil
  show ?case by (simp add: stats_monotone_refl)
next
  case (Cons ev evs)
  have "stats_monotone s (on_stream_event s ev)" by (rule on_stream_event_monotone)
  moreover have "stats_monotone (on_stream_event s ev) (foldl on_stream_event (on_stream_event s ev) evs)"
    by (rule Cons.IH)
  ultimately show ?case using stats_monotone_trans by simp
qed

lemma attempt_monotone: "stats_monotone (stats w) (stats (snd (attempt net url path p w)))"
  by (cases "outcome (net url path p (created w))")
     (simp_all add: attempt_def Let_def stats_monotone_refl record_success_monotone)

lemma execute_attempt_monotone:
  "stats_monotone (stats w) (stats (snd (snd (execute b (attempt net url path p) w))))"
proof (cases "execute_gate b (clock w)")
  case (Inl e)
  then show ?thesis by (simp add: execute_def stats_monotone_refl)
next
  case (Inr b1)
  obtain r w1 where a: "attempt net url path p w = (r, w1)" by (cases "attempt net url path p w")
  have "stats_monotone (stats w) (stats w1)" using attempt_monotone [of w net url path p] a by simp
  with Inr a show ?thesis by (cases r) (simp_all add: execute_def)
qed

lemma sendRequest_loop_monotone:
  "stats_monotone (stats w) (stats (snd (snd (sendRequest_loop net url path protos rest b w))))"
proof (induction rest arbitrary: b w)
  case Nil
  show ?case by (simp add: stats_monotone_refl)
next
  case (Cons p rest)
  obtain r b1 w1 where e: "execute b (attempt net url path p) w = (r, b1, w1)"
    by (cases "execute b (attempt net url path p) w")
  have m1: "stats_monotone (stats w) (stats w1)"
    using execute_attempt_monotone [of w b net url path p] e by simp
  show ?case
  proof (cases r)
    case (Inr res)
    with e m1 show ?thesis by simp
  next
    case (Inl err)
    show ?thesis
    proof (cases "p = last_protocol protos")
      case True
      have "stats_monotone (stats w1) (record_failure (stats w1) err)" by (rule record_failure_monotone)
      with m1 have "stats_monotone (stats w) (record_failure (stats w1) err)"
        by (rule stats_monotone_trans)
      with e Inl True show ?thesis by simp
    next
      case False
      have "stats_monotone (stats w1) (stats (snd (snd (sendRequest_loop net url path protos rest b1 w1))))"
        by (rule Cons.IH)
      with m1 have "stats_monotone (stats w) (stats (snd (snd (sendRequest_loop net url path protos rest b1 w1))))"
        by (rule stats_monotone_trans)
      with e Inl False show ?thesis by simp
    qed
  qed
qed

lemma attack_round_monotone: "stats_monotone (stats w) (stats (attack_round r w))"
proof (cases "connect r")
  case (Connected events)
  let ?s = "(stats w)\<lparr> attackSent := attackSent (stats w) + 50 \<rparr>"
  have "stats_monotone (stats w) ?s" by (simp add: stats_monotone_def min_le_refl)
  moreover have "stats_monotone ?s (foldl on_stream_event ?s events)"
    by (rule foldl_on_stream_event_monotone)
  ultimately have "stats_monotone (stats w) (foldl on_stream_event ?s events)"
    by (rule stats_monotone_trans)
  with Connected show ?thesis by (simp add: attack_round_def Let_def)
next
  case (ConnectFailed err)
  then show ?thesis by (simp add: attack_round_def Let_def stats_monotone_def min_le_refl)
qed

lemma run_step_monotone: "stats_monotone (stats (snd bw)) (stats (snd (run_step bw op)))"
proof (cases bw)
  case (Pair b w)
  show ?thesis
  proof (cases op)
    case (Dispatch net url path protos)
    with Pair show ?thesis
      using sendRequest_loop_monotone [of w net url path protos protos b]
      by (simp add: sendRequest_def)
  next
    case (AttackRound r)
    with Pair show ?thesis by (simp add: attack_round_monotone)
  qed
qed

lemma run_monotone: "stats_monotone (stats (snd bw)) (stats (snd (run ops bw)))"
  unfolding run_def
proof (induction ops arbitrary: bw)
  case Nil
  show ?case by (simp add: stats_monotone_refl)
next
  case (Cons op ops)
  have "stats_monotone (stats (snd bw)) (stats (snd (run_step bw op)))" by (rule run_step_monotone)
  moreover have "stats_monotone (stats (snd (run_step bw op))) (stats (snd (foldl run_step (run_step bw op) ops)))"
    by (rule Cons.IH)
  ultimately show ?case using stats_monotone_trans by simp
qed

text \<open>
  C9. Every write to the four fields is monotone: recording a success raises \<open>success\<close> by one,
  lowers \<open>minLatency\<close> or leaves it, raises \<open>maxLatency\<close> or leaves it, and leaves \<open>failed\<close>;
  recording a failure raises \<open>failed\<close> by one and leaves the other three; the handlers of the
  attack streams leave all four. Hence the statistics after a dispatch, after an attack pass,
  and after any run made of such operations (also between any two points of it) have success
  and failure counters that are not lower, a minimum latency that is not higher and a maximum
  latency that is not lower than before.
\<close>

theorem stats_never_move_backwards:
  "stats_monotone s (record_success s sc lat p) \<and>
   success (record_success s sc lat p) = success s + 1 \<and>
   failed (record_success s sc lat p) = failed s \<and>
   minLatency (record_success s sc lat p) = (if below_min lat (minLatency s) then Finite lat else minLatency s) \<and>
   maxLatency (record_success s sc lat p) = (if maxLatency s < lat then lat else maxLatency s) \<and>
   stats_monotone s (record_failure s err) \<and>
   failed (record_failure s err) = failed s + 1 \<and>
   success (record_failure s err) = success s \<and>
   minLatency (record_failure s err) = minLatency s \<and>
   maxLatency (record_failure s err) = maxLatency s \<and>
   stats_monotone s (on_stream_event s ev) \<and>
   stats_monotone (stats w) (stats (snd (snd (sendRequest net url path b protos w)))) \<and>
   stats_monotone (stats w) (stats (attack_round r w)) \<and>
   stats_monotone (stats (snd (run ops1 (b, w)))) (stats (snd (run (ops1 @ ops2) (b, w))))"
proof -
  have a: "success (record_success s sc lat p) = success s + 1"
    "failed (record_success s sc lat p) = failed s"
    "minLatency (record_success s sc lat p) = (if below_min lat (minLatency s) then Finite lat else minLatency s)"
    "maxLatency (record_success s sc lat p) = (if maxLatency s < lat then lat else maxLatency s)"
    by (simp_all add: record_success_def Let_def)
  have c: "failed (record_failure s err) = failed s + 1" "success (record_failure s err) = success s"
    "minLatency (record_failure s err) = minLatency s" "maxLatency (record_failure s err) = maxLatency s"
    by (simp_all add: record_failure_def)
  have d: "stats_monotone (stats w) (stats (snd (snd (sendRequest net url path b protos w))))"
    unfolding sendRequest_def by (rule sendRequest_loop_monotone)
  have e: "stats_monotone (stats (snd (run ops1 (b, w)))) (stats (snd (run (ops1 @ ops2) (b, w))))"
    using run_monotone [of "run ops1 (b, w)" ops2] by (simp add: run_def)
  show ?thesis
    using a c d e record_success_monotone record_failure_monotone on_stream_event_monotone
      attack_round_monotone by blast
qed

section \<open>Attack modes\<close>

text \<open>
  C10. For every selector other than \<open>none\<close>, \<^verbatim>\<open>main\<close> starts \<open>conc\<close> tasks that are all
  \<^verbatim>\<open>rapidResetAttack(targetUrl, stats, durationMs)\<close>; the selector is not passed on. So the
  workload is the one started for \<open>rapid-reset\<close>, and the one for \<open>madeyoureset\<close> is the same.
\<close>

theorem attack_modes_run_same_routine:
  assumes "cfg_attack cfg \<noteq> ''none''"
  shows "main_workload cfg targetUrl durationMs =
       AttackMode (replicate (nat (cfg_conc cfg)) (rapidResetAttack targetUrl durationMs)) \<and>
     main_workload cfg targetUrl durationMs =
       main_workload (cfg\<lparr> cfg_attack := ''rapid-reset'' \<rparr>) targetUrl durationMs \<and>
     main_workload (cfg\<lparr> cfg_attack := ''madeyoureset'' \<rparr>) targetUrl durationMs =
       main_workload (cfg\<lparr> cfg_attack := ''rapid-reset'' \<rparr>) targetUrl durationMs"
  using assms by (simp add: main_workload_def)

theorem attack_modes_run_same_routine_witness:
  "main_workload sample_config ''https://target:443'' 60000 =
     AttackMode [rapidResetAttack ''https://target:443'' 60000,
                 rapidResetAttack ''https://target:443'' 60000,
                 rapidResetAttack ''https://target:443'' 60000] \<and>
   main_workload sample_config ''https://target:443'' 60000 =
     main_workload (sample_config\<lparr> cfg_attack := ''rapid-reset'' \<rparr>) ''https://target:443'' 60000"
proof -
  have h: "cfg_attack sample_config \<noteq> ''none''" by (simp add: sample_config_def)
  note t = attack_modes_run_same_routine [OF h, of "''https://target:443''" 60000]
  have n: "replicate (nat (cfg_conc sample_config)) (rapidResetAttack ''https://target:443'' 60000) =
     [rapidResetAttack ''https://target:443'' 60000, rapidResetAttack ''https://target:443'' 60000,
      rapidResetAttack ''https://target:443'' 60000]"
    by (simp add: sample_config_def numeral_3_eq_3)
  from t have "main_workload sample_config ''https://target:443'' 60000 =
     AttackMode (replicate (nat (cfg_conc sample_config)) (rapidResetAttack ''https://target:443'' 60000))"
    by blast
  then have c1: "main_workload sample_config ''https://target:443'' 60000 =
     AttackMode [rapidResetAttack ''https://target:443'' 60000,
                 rapidResetAttack ''https://target:443'' 60000,
                 rapidResetAttack ''https://target:443'' 60000]"
    by (simp only: n)
  from t have c2: "main_workload sample_config ''https://target:443'' 60000 =
     main_workload (sample_config\<lparr> cfg_attack := ''rapid-reset'' \<rparr>) ''https://target:443'' 60000"
    by blast
  show ?thesis using c1 c2 by blast
qed

end
